theory Spec2Isabelle
  imports Complex_Main "HOL-Library.Multiset"
begin

section \<open>Retrieval evaluation and training loop of \<^verbatim>\<open>ppcls/engine/trainer_logo.py\<close>\<close>

text \<open>
  The file embeds \<^verbatim>\<open>Trainer.eval\<close> and \<^verbatim>\<open>Trainer.train\<close>. The entries of the
  feature tensors are \<^verbatim>\<open>float32\<close> numbers, among them \<^verbatim>\<open>inf\<close> and \<^verbatim>\<open>nan\<close>. Their
  type \<open>'f\<close> and the operations of the framework on them are parameters of the embedding:
  nothing is assumed of the arithmetic, so what is proved holds of the machine numbers with
  their rounding, their underflow and their division by zero, which raises nothing.
\<close>

subsection \<open>Errors and results\<close>

datatype error =
    AttributeError      \<comment> \<open>\<^verbatim>\<open>.shape\<close> of \<^verbatim>\<open>None\<close>: a dataloader that yields no batch\<close>
  | ValueError          \<comment> \<open>\<^verbatim>\<open>paddle.split\<close>: the axis is not divisible into the sections\<close>
  | IndexError          \<comment> \<open>an index outside of a tensor\<close>
  | TypeError           \<comment> \<open>a call of \<^verbatim>\<open>None\<close>, or \<^verbatim>\<open>None\<close> given as a tensor\<close>
  | KeyError            \<comment> \<open>a key that a dict does not have\<close>
  | ZeroDivisionError   \<comment> \<open>\<^verbatim>\<open>%\<close> by zero on Python integers\<close>

fun mapM :: "('a \<Rightarrow> 'e + 'b) \<Rightarrow> 'a list \<Rightarrow> 'e + 'b list" where
  "mapM f [] = Inr []"
| "mapM f (x # xs) =
     (case f x of
        Inl e \<Rightarrow> Inl e
      | Inr y \<Rightarrow> (case mapM f xs of Inl e \<Rightarrow> Inl e | Inr ys \<Rightarrow> Inr (y # ys)))"

subsection \<open>The operations of the framework\<close>

text \<open>
  The tensor operations that \<^verbatim>\<open>Trainer.eval\<close> calls, on the entries and rows that it
  calls them on: \<^verbatim>\<open>paddle.square\<close> and \<^verbatim>\<open>paddle.sqrt\<close> of an entry,
  \<^verbatim>\<open>paddle.sum(..., axis=1)\<close> of a row, \<^verbatim>\<open>paddle.divide\<close> of an entry by the norm of
  its row, the entry of \<^verbatim>\<open>paddle.matmul(x, y, transpose_y=True)\<close> for a row of \<open>x\<close> and a
  row of \<open>y\<close>, \<^verbatim>\<open>paddle.argsort(..., axis=1, descending=True)\<close> of a row, and
  \<^verbatim>\<open>paddle.mean(paddle.cast(..., 'float32')).numpy()[0]\<close> of a tensor of truth values,
  which is a number.
\<close>

record 'f paddle =
  paddle_square :: "'f \<Rightarrow> 'f"
  paddle_sum :: "'f list \<Rightarrow> 'f"
  paddle_sqrt :: "'f \<Rightarrow> 'f"
  paddle_divide :: "'f \<Rightarrow> 'f \<Rightarrow> 'f"
  paddle_matmul :: "'f list \<Rightarrow> 'f list \<Rightarrow> 'f"
  paddle_argsort :: "'f list \<Rightarrow> nat list"
  paddle_mean :: "bool list \<Rightarrow> real"



subsection \<open>Tensors of \<^verbatim>\<open>Trainer.eval\<close>\<close>

type_synonym 'f vec = "'f list"
type_synonym label = int

text \<open>
  A batch, after the forward pass, is the list of its samples: the feature row that the network
  returned for the sample (\<^verbatim>\<open>out["features"]\<close>, one row of a \<open>[B, D]\<close> tensor) and the
  sample's label (\<^verbatim>\<open>batch[1]\<close>, reshaped to \<open>[B, 1]\<close>). The network is not part of this file.
  All rows have the length \<open>D\<close> of the network's embedding; lists of rows of different lengths
  are no tensors, and the shape errors of \<^verbatim>\<open>paddle.concat\<close> and \<^verbatim>\<open>paddle.matmul\<close>
  on them are not followed.
\<close>

type_synonym 'f batch = "('f vec \<times> label) list"

text \<open>\<^verbatim>\<open>paddle.sqrt(paddle.sum(paddle.square(batch_feas), axis=1, keepdim=True))\<close>, for one row.\<close>

definition feas_norm :: "'f paddle \<Rightarrow> 'f vec \<Rightarrow> 'f" where
  "feas_norm pd v = paddle_sqrt pd (paddle_sum pd (map (paddle_square pd) v))"

text \<open>
  \<^verbatim>\<open>paddle.divide(batch_feas, feas_norm)\<close>, for one row. The source has no guard and the
  division raises nothing: with the norm zero the entries of the quotient are what the
  framework's division by zero gives.
\<close>

definition divide :: "'f paddle \<Rightarrow> 'f vec \<Rightarrow> 'f \<Rightarrow> 'f vec" where
  "divide pd v n = map (\<lambda>x. paddle_divide pd x n) v"

definition do_norm :: "'f paddle \<Rightarrow> 'f vec list \<Rightarrow> 'f vec list" where
  "do_norm pd batch_feas = map (\<lambda>v. divide pd v (feas_norm pd v)) batch_feas"

text \<open>
  The loop over a dataloader (step 1 of the source, once for the gallery and once for the
  queries): the accumulators \<^verbatim>\<open>all_feas\<close> and \<^verbatim>\<open>all_labs\<close> start as \<^verbatim>\<open>None\<close> and
  are extended by \<^verbatim>\<open>paddle.concat\<close>. Every pass ends with
  \<^verbatim>\<open>idx % print_batch_step\<close>, which raises when \<^verbatim>\<open>print_batch_step\<close> is zero.
\<close>

fun build_feas ::
  "'f paddle \<Rightarrow> int \<Rightarrow> 'f batch list \<Rightarrow> ('f vec list \<times> label list) option \<Rightarrow>
   error + ('f vec list \<times> label list) option"
where
  "build_feas pd print_batch_step [] acc = Inr acc"
| "build_feas pd print_batch_step (b # rest) acc =
     (let batch_feas = do_norm pd (map fst b) in
      if print_batch_step = 0 then Inl ZeroDivisionError
      else
        build_feas pd print_batch_step rest
          (case acc of
             None \<Rightarrow> Some (batch_feas, map snd b)
           | Some (all_feas, all_labs) \<Rightarrow>
               Some (all_feas @ batch_feas, all_labs @ map snd b)))"

text \<open>
  \<^verbatim>\<open>paddle.split(x, num_or_sections=n)\<close> with an integer \<open>n\<close>: \<open>n\<close> blocks of equal size
  along axis 0, and an error when the axis is not divisible by \<open>n\<close> or \<open>n\<close> is not positive.
\<close>

fun chunks :: "nat \<Rightarrow> nat \<Rightarrow> 'a list \<Rightarrow> 'a list list" where
  "chunks sz 0 xs = []"
| "chunks sz (Suc k) xs = take sz xs # chunks sz k (drop sz xs)"

definition split :: "'a list \<Rightarrow> int \<Rightarrow> error + 'a list list" where
  "split x num =
     (if num \<le> 0 \<or> int (length x) mod num \<noteq> 0 then Inl ValueError
      else Inr (chunks (length x div nat num) (nat num) x))"

text \<open>\<^verbatim>\<open>paddle.matmul(block_fea, all_feas, transpose_y=True)\<close>: one row for each query.\<close>

definition matmul_T :: "'f paddle \<Rightarrow> 'f vec list \<Rightarrow> 'f vec list \<Rightarrow> 'f list list" where
  "matmul_T pd block_fea all_feas = map (\<lambda>q. map (paddle_matmul pd q) all_feas) block_fea"

text \<open>\<^verbatim>\<open>indicies[:, 0]\<close> for one row, and \<^verbatim>\<open>paddle.gather(all_labs, indicies)\<close> for one index.\<close>

definition first_index :: "nat list \<Rightarrow> error + nat" where
  "first_index idx = (case idx of [] \<Rightarrow> Inl IndexError | i # _ \<Rightarrow> Inr i)"

definition gather :: "label list \<Rightarrow> nat \<Rightarrow> error + label" where
  "gather all_labs i = (if i < length all_labs then Inr (all_labs ! i) else Inl IndexError)"

text \<open>The body of the loop over \<^verbatim>\<open>fea_blocks\<close>: the labels chosen for one block.\<close>

definition choose_block ::
  "'f paddle \<Rightarrow> 'f vec list \<Rightarrow> label list \<Rightarrow> 'f vec list \<Rightarrow> error + label list"
where
  "choose_block pd all_feas all_labs block_fea =
     mapM (\<lambda>row. case first_index (paddle_argsort pd row) of
                    Inl e \<Rightarrow> Inl e
                  | Inr i \<Rightarrow> gather all_labs i)
          (matmul_T pd block_fea all_feas)"

fun choose_blocks ::
  "'f paddle \<Rightarrow> 'f vec list \<Rightarrow> label list \<Rightarrow> 'f vec list list \<Rightarrow>
   label list option \<Rightarrow> error + label list option"
where
  "choose_blocks pd all_feas all_labs [] choosen_label = Inr choosen_label"
| "choose_blocks pd all_feas all_labs (block_fea # rest) choosen_label =
     (case choose_block pd all_feas all_labs block_fea of
        Inl e \<Rightarrow> Inl e
      | Inr choosen_label_tmp \<Rightarrow>
          choose_blocks pd all_feas all_labs rest
            (case choosen_label of
               None \<Rightarrow> Some choosen_label_tmp
             | Some c \<Rightarrow> Some (c @ choosen_label_tmp)))"

text \<open>
  \<^verbatim>\<open>paddle.mean(paddle.cast(paddle.equal(choosen_label, query_labs), 'float32'))\<close>: both
  tensors have one row per query.
\<close>

definition mean_equal :: "'f paddle \<Rightarrow> label list \<Rightarrow> label list \<Rightarrow> real" where
  "mean_equal pd choosen_label query_labs =
     paddle_mean pd (map2 (\<lambda>a b. a = b) choosen_label query_labs)"

text \<open>
  \<^verbatim>\<open>Trainer.eval\<close>, given the framework, \<^verbatim>\<open>Global.print_batch_step\<close>,
  \<^verbatim>\<open>Global.num_split\<close> and what the two dataloaders and the
  network yield. \<^verbatim>\<open>all_feas.shape\<close> and \<^verbatim>\<open>query_feas.shape\<close> are read for the log
  messages, which fails on \<^verbatim>\<open>None\<close>.
\<close>

definition eval ::
  "'f paddle \<Rightarrow> int \<Rightarrow> int \<Rightarrow> 'f batch list \<Rightarrow> 'f batch list \<Rightarrow> error + real"
where
  "eval pd print_batch_step num_split gallery query =
     (case build_feas pd print_batch_step gallery None of
        Inl e \<Rightarrow> Inl e
      | Inr None \<Rightarrow> Inl AttributeError
      | Inr (Some (all_feas, all_labs)) \<Rightarrow>
          (case build_feas pd print_batch_step query None of
             Inl e \<Rightarrow> Inl e
           | Inr None \<Rightarrow> Inl AttributeError
           | Inr (Some (query_feas, query_labs)) \<Rightarrow>
               (case split query_feas num_split of
                  Inl e \<Rightarrow> Inl e
                | Inr fea_blocks \<Rightarrow>
                    (case choose_blocks pd all_feas all_labs fea_blocks None of
                       Inl e \<Rightarrow> Inl e
                     | Inr None \<Rightarrow> Inl TypeError
                     | Inr (Some choosen_label) \<Rightarrow>
                         Inr (mean_equal pd choosen_label query_labs)))))"

subsection \<open>What the glossary calls recall@1\<close>





text \<open>
  An instance of the framework for examples: exact arithmetic on real numbers, a stable
  insertion sort of the indices by the negated entries, and the fraction of the truth values
  that hold. It is used on rows whose norm is not zero only.
\<close>

definition argsort_stable :: "real list \<Rightarrow> nat list" where
  "argsort_stable row = sort_key (\<lambda>i. - (row ! i)) [0..<length row]"

definition exact :: "real paddle" where
  "exact = \<lparr>paddle_square = (\<lambda>x. x * x), paddle_sum = sum_list, paddle_sqrt = sqrt,
            paddle_divide = (\<lambda>x n. x / n),
            paddle_matmul = (\<lambda>u v. sum_list (map2 (*) u v)),
            paddle_argsort = argsort_stable,
            paddle_mean = (\<lambda>bs. real (length (filter (\<lambda>b. b) bs)) / real (length bs))\<rparr>"

subsection \<open>The state of \<^verbatim>\<open>Trainer.train\<close>\<close>

text \<open>
  Modelled from the spec: \<^verbatim>\<open>AverageMeter\<close> of \<^verbatim>\<open>ppcls.utils.misc\<close> is not among the
  sources. The specification speaks of metric averaging, weighted by the batch size: a meter
  keeps the weighted sum and the total weight, and \<^verbatim>\<open>update(val, n)\<close> adds \<open>val * n\<close> to the
  one and \<open>n\<close> to the other; \<^verbatim>\<open>avg\<close> is their quotient.
\<close>

record AverageMeter =
  meter_val :: real
  meter_avg :: real
  meter_sum :: real
  meter_count :: nat

definition new_meter :: AverageMeter where
  "new_meter = \<lparr>meter_val = 0, meter_avg = 0, meter_sum = 0, meter_count = 0\<rparr>"

definition meter_update :: "AverageMeter \<Rightarrow> real \<Rightarrow> nat \<Rightarrow> AverageMeter" where
  "meter_update m v n =
     \<lparr>meter_val = v,
      meter_avg = (meter_sum m + v * real n) / real (meter_count m + n),
      meter_sum = meter_sum m + v * real n,
      meter_count = meter_count m + n\<rparr>"

text \<open>
  \<^verbatim>\<open>output_info\<close> is a dict from a key to its meter, in the order of insertion. The two
  statements \<^verbatim>\<open>if not key in output_info: output_info[key] = AverageMeter(key, '7.5f')\<close> and
  \<^verbatim>\<open>output_info[key].update(v, batch_size)\<close> are one function.
\<close>

type_synonym info = "(string \<times> AverageMeter) list"

fun update_info :: "string \<Rightarrow> real \<Rightarrow> nat \<Rightarrow> info \<Rightarrow> info" where
  "update_info key v n [] = [(key, meter_update new_meter v n)]"
| "update_info key v n ((k, m) # rest) =
     (if k = key then (k, meter_update m v n) # rest
      else (k, m) # update_info key v n rest)"

text \<open>\<^verbatim>\<open>for key in loss_dict: ...\<close>, and the same loop over \<^verbatim>\<open>metric_dict\<close>.\<close>

definition update_all :: "(string \<times> real) list \<Rightarrow> nat \<Rightarrow> info \<Rightarrow> info" where
  "update_all d batch_size output_info =
     fold (\<lambda>(key, v) oi. update_info key v batch_size oi) d output_info"

text \<open>\<^verbatim>\<open>[(key, output_info[key].avg) for key in output_info]\<close>: what a log message prints.\<close>

definition avgs :: "info \<Rightarrow> (string \<times> real) list" where
  "avgs output_info = map (\<lambda>(k, m). (k, meter_avg m)) output_info"

text \<open>
  The configuration, as far as \<^verbatim>\<open>train\<close> and \<^verbatim>\<open>eval\<close> read it.
  \<^verbatim>\<open>eval_during_train\<close> is read as a truth value and as a divisor: \<^verbatim>\<open>False\<close> and
  \<^verbatim>\<open>None\<close> are \<open>0\<close> here and \<^verbatim>\<open>True\<close> is \<open>1\<close>, as Python computes with them.
  \<open>loss_train\<close> and \<open>metric_train\<close> say whether \<^verbatim>\<open>_build_loss_info\<close> and
  \<^verbatim>\<open>_build_metric_info\<close> found a section \<^verbatim>\<open>Train\<close> (they return \<^verbatim>\<open>None\<close> otherwise).
\<close>

record config =
  epochs :: int
  print_batch_step :: int
  save_interval :: int
  eval_during_train :: int
  checkpoints :: bool
  num_split :: int
  loss_train :: bool
  metric_train :: bool

text \<open>
  What the framework yields for one training batch: \<^verbatim>\<open>batch[0].shape[0]\<close>, and the dicts
  that \<^verbatim>\<open>loss_func(out, batch[-1])\<close> and \<^verbatim>\<open>metric_func(out, batch[-1])\<close> return.
\<close>

record train_batch =
  batch_size :: nat
  loss_dict :: "(string \<times> real) list"
  metric_dict :: "(string \<times> real) list"

text \<open>
  What the dataloaders and the network yield during one epoch: the batches of the evaluation
  at the start of the epoch, the training batches, and the batches of the evaluation after them.
\<close>

record 'f epoch_io =
  eval0_gallery :: "'f batch list"
  eval0_query :: "'f batch list"
  train_batches :: "train_batch list"
  eval_gallery :: "'f batch list"
  eval_query :: "'f batch list"

record best =
  metric :: real
  epoch :: int

text \<open>
  The dict that \<^verbatim>\<open>init_model\<close> returns from a checkpoint, and
  \<^verbatim>\<open>best_metric.update(metric_info)\<close>: a key of the checkpoint replaces the entry.
\<close>

record metric_info =
  saved_metric :: "real option"
  saved_epoch :: "int option"

definition update_best :: "best \<Rightarrow> metric_info \<Rightarrow> best" where
  "update_best best_metric mi =
     \<lparr>metric = (case saved_metric mi of None \<Rightarrow> metric best_metric | Some m \<Rightarrow> m),
      epoch = (case saved_epoch mi of None \<Rightarrow> epoch best_metric | Some e \<Rightarrow> e)\<rparr>"

text \<open>
  The calls that \<^verbatim>\<open>train\<close> makes, in their order. \<open>SaveModel p m e\<close> is
  \<^verbatim>\<open>save_load.save_model\<close> of the model and the optimizer with the prefix \<open>p\<close> and the
  metric info \<^verbatim>\<open>{"metric": m, "epoch": e}\<close>.
\<close>

datatype prefix = best_model | ppcls_epoch int

datatype event =
    InitModel           \<comment> \<open>\<^verbatim>\<open>init_model(config["Global"], model, optimizer)\<close>\<close>
  | EvalCall int        \<comment> \<open>\<^verbatim>\<open>self.eval(epoch_id)\<close>\<close>
  | ModelTrain          \<comment> \<open>\<^verbatim>\<open>self.model.train()\<close>\<close>
  | Forward             \<comment> \<open>\<^verbatim>\<open>self.model(batch[0], batch[1])\<close>\<close>
  | LogIter int nat "(string \<times> real) list"
                        \<comment> \<open>the message of an iteration: epoch, iteration, averages\<close>
  | Backward            \<comment> \<open>\<^verbatim>\<open>loss_dict["loss"].backward()\<close>\<close>
  | OptimizerStep       \<comment> \<open>\<^verbatim>\<open>optimizer.step()\<close>\<close>
  | ClearGrad           \<comment> \<open>\<^verbatim>\<open>optimizer.clear_grad()\<close>\<close>
  | LrStep              \<comment> \<open>\<^verbatim>\<open>lr_sch.step()\<close>\<close>
  | LogAvg int "(string \<times> real) list"
                        \<comment> \<open>the message at the end of an epoch: epoch, averages\<close>
  | SaveModel prefix real int

record tstate =
  best_metric :: best
  output_info :: info
  global_step :: nat
  trace :: "event list"

text \<open>A run that raises leaves the calls it has made; one that returns leaves its state.\<close>

type_synonym outcome = "(error \<times> event list) + tstate"

definition emit :: "event list \<Rightarrow> tstate \<Rightarrow> tstate" where
  "emit evs st = st\<lparr>trace := trace st @ evs\<rparr>"

subsection \<open>\<^verbatim>\<open>Trainer.train\<close>\<close>

text \<open>The body of the loop over the training batches.\<close>

definition train_step :: "config \<Rightarrow> int \<Rightarrow> nat \<Rightarrow> train_batch \<Rightarrow> tstate \<Rightarrow> outcome" where
  "train_step cfg epoch_id iter_id b st =
     (let st1 = emit [Forward] (st\<lparr>global_step := global_step st + 1\<rparr>) in
      if \<not> loss_train cfg then Inl (TypeError, trace st1)
      else
        let oi1 = update_all (loss_dict b) (batch_size b) (output_info st1);
            oi2 = (if metric_train cfg then update_all (metric_dict b) (batch_size b) oi1
                   else oi1);
            st2 = st1\<lparr>output_info := oi2\<rparr>
        in
          if print_batch_step cfg = 0 then Inl (ZeroDivisionError, trace st2)
          else
            let st3 = (if int iter_id mod print_batch_step cfg = 0
                       then emit [LogIter epoch_id iter_id (avgs oi2)] st2 else st2)
            in
              (case map_of (loss_dict b) ''loss'' of
                 None \<Rightarrow> Inl (KeyError, trace st3)
               | Some l \<Rightarrow> Inr (emit [Backward, OptimizerStep, ClearGrad, LrStep] st3)))"

fun train_iters :: "config \<Rightarrow> int \<Rightarrow> nat \<Rightarrow> train_batch list \<Rightarrow> tstate \<Rightarrow> outcome" where
  "train_iters cfg epoch_id iter_id [] st = Inr st"
| "train_iters cfg epoch_id iter_id (b # rest) st =
     (case train_step cfg epoch_id iter_id b st of
        Inl x \<Rightarrow> Inl x
      | Inr st' \<Rightarrow> train_iters cfg epoch_id (Suc iter_id) rest st')"

text \<open>The end of an epoch: the evaluation, if it is due, and the two checkpoints.\<close>

definition eval_due :: "config \<Rightarrow> int \<Rightarrow> bool" where
  "eval_due cfg epoch_id \<longleftrightarrow>
     eval_during_train cfg \<noteq> 0 \<and> epoch_id mod eval_during_train cfg = 0"

definition save_periodic :: "config \<Rightarrow> int \<Rightarrow> real \<Rightarrow> tstate \<Rightarrow> outcome" where
  "save_periodic cfg epoch_id acc st =
     (if save_interval cfg = 0 then Inl (ZeroDivisionError, trace st)
      else if epoch_id mod save_interval cfg = 0
        then Inr (emit [SaveModel (ppcls_epoch epoch_id) acc epoch_id] st)
      else Inr st)"

definition eval_and_save ::
  "'f paddle \<Rightarrow> config \<Rightarrow> int \<Rightarrow> 'f epoch_io \<Rightarrow> tstate \<Rightarrow> outcome"
where
  "eval_and_save pd cfg epoch_id io st =
     (if eval_due cfg epoch_id then
        (let st1 = emit [EvalCall epoch_id] st in
         case eval pd (print_batch_step cfg) (num_split cfg) (eval_gallery io) (eval_query io) of
           Inl e \<Rightarrow> Inl (e, trace st1)
         | Inr acc \<Rightarrow>
             save_periodic cfg epoch_id acc
               (if acc > metric (best_metric st1)
                then emit [SaveModel best_model acc epoch_id]
                       (st1\<lparr>best_metric := \<lparr>metric = acc, epoch = epoch_id\<rparr>\<rparr>)
                else st1))
      else save_periodic cfg epoch_id 0 st)"

text \<open>
  The body of the loop over the epochs. The value of \<^verbatim>\<open>self.eval(0)\<close> is assigned to
  \<^verbatim>\<open>acc\<close> and \<^verbatim>\<open>acc\<close> is set to \<open>0.0\<close> in the next line.
\<close>

definition train_epoch ::
  "'f paddle \<Rightarrow> config \<Rightarrow> int \<Rightarrow> 'f epoch_io \<Rightarrow> tstate \<Rightarrow> outcome"
where
  "train_epoch pd cfg epoch_id io st =
     (let st1 = emit [EvalCall 0] st in
      case eval pd (print_batch_step cfg) (num_split cfg) (eval0_gallery io) (eval0_query io) of
        Inl e \<Rightarrow> Inl (e, trace st1)
      | Inr acc0 \<Rightarrow>
          (case train_iters cfg epoch_id 0 (train_batches io) (emit [ModelTrain] st1) of
             Inl x \<Rightarrow> Inl x
           | Inr st2 \<Rightarrow>
               eval_and_save pd cfg epoch_id io
                 ((emit [LogAvg epoch_id (avgs (output_info st2))] st2)\<lparr>output_info := []\<rparr>)))"

text \<open>
  \<^verbatim>\<open>for epoch_id in range(best_metric["epoch"] + 1, epochs + 1)\<close>: the counter runs
  while it is below the end of the range. \<open>None\<close> is a loop that does not end.
\<close>

partial_function (option) epoch_loop ::
  "'f paddle \<Rightarrow> config \<Rightarrow> (int \<Rightarrow> 'f epoch_io) \<Rightarrow> int \<Rightarrow> tstate \<Rightarrow> outcome option"
where
  "epoch_loop pd cfg io epoch_id st =
     (if epoch_id < epochs cfg + 1 then
        (case train_epoch pd cfg epoch_id (io epoch_id) st of
           Inl x \<Rightarrow> Some (Inl x)
         | Inr st' \<Rightarrow> epoch_loop pd cfg io (epoch_id + 1) st')
      else Some (Inr st))"

text \<open>
  \<^verbatim>\<open>Trainer.train\<close>. \<open>init_model\<close> is what \<^verbatim>\<open>init_model(...)\<close> returns, the metric
  info of the checkpoint or \<^verbatim>\<open>None\<close>; \<open>io\<close> is what the framework yields in each epoch.
\<close>

definition init_state :: "config \<Rightarrow> metric_info option \<Rightarrow> tstate" where
  "init_state cfg init_model =
     (let st = \<lparr>best_metric = \<lparr>metric = 0, epoch = 0\<rparr>, output_info = [],
                global_step = 0, trace = []\<rparr>
      in if checkpoints cfg then
           (case init_model of
              None \<Rightarrow> emit [InitModel] st
            | Some mi \<Rightarrow> emit [InitModel] (st\<lparr>best_metric := update_best (best_metric st) mi\<rparr>))
         else st)"

definition train ::
  "'f paddle \<Rightarrow> config \<Rightarrow> metric_info option \<Rightarrow> (int \<Rightarrow> 'f epoch_io) \<Rightarrow>
   outcome option"
where
  "train pd cfg init_model io =
     (let st = init_state cfg init_model
      in epoch_loop pd cfg io (epoch (best_metric st) + 1) st)"

subsection \<open>Reading a run of \<^verbatim>\<open>Trainer.train\<close>\<close>

text \<open>
  The definitions of this subsection are not code of the source: they say what the claims
  say about a run. \<open>run_epochs\<close> runs the body of the epoch loop for the epochs of a list, in
  their order, and stops where one raises.
\<close>

fun run_epochs ::
  "'f paddle \<Rightarrow> config \<Rightarrow> (int \<Rightarrow> 'f epoch_io) \<Rightarrow> int list \<Rightarrow> tstate \<Rightarrow> outcome"
where
  "run_epochs pd cfg io [] st = Inr st"
| "run_epochs pd cfg io (e # es) st =
     (case train_epoch pd cfg e (io e) st of
        Inl x \<Rightarrow> Inl x
      | Inr st' \<Rightarrow> run_epochs pd cfg io es st')"

text \<open>The calls that a run has made, whether it returned or raised.\<close>

definition calls :: "outcome \<Rightarrow> event list" where
  "calls r = (case r of Inl (x, tr) \<Rightarrow> tr | Inr st \<Rightarrow> trace st)"

text \<open>
  The calls of a parameter update, and the calls of one training batch that concern the
  parameters: the forward pass and the update.
\<close>

fun is_update :: "event \<Rightarrow> bool" where
  "is_update Backward = True"
| "is_update OptimizerStep = True"
| "is_update ClearGrad = True"
| "is_update LrStep = True"
| "is_update ev = False"

definition batch_calls :: "event list \<Rightarrow> event list" where
  "batch_calls tr = filter (\<lambda>ev. ev = Forward \<or> is_update ev) tr"

definition batch_pattern :: "event list" where
  "batch_pattern = [Forward, Backward, OptimizerStep, ClearGrad, LrStep]"

fun is_best_save :: "event \<Rightarrow> bool" where
  "is_best_save (SaveModel best_model m e) = True"
| "is_best_save ev = False"

fun is_periodic_save :: "event \<Rightarrow> bool" where
  "is_periodic_save (SaveModel (ppcls_epoch k) m e) = True"
| "is_periodic_save ev = False"

text \<open>
  The values that a batch reports, in the order in which the meters are updated, and the
  values of one key over a list of batches, each with the size of its batch.
\<close>

definition updates :: "config \<Rightarrow> train_batch \<Rightarrow> (string \<times> real) list" where
  "updates cfg b = loss_dict b @ (if metric_train cfg then metric_dict b else [])"

definition key_values :: "config \<Rightarrow> string \<Rightarrow> train_batch list \<Rightarrow> (real \<times> nat) list" where
  "key_values cfg key bs =
     concat (map (\<lambda>b. map (\<lambda>(k, v). (v, batch_size b))
                         (filter (\<lambda>(k, v). k = key) (updates cfg b))) bs)"

definition weighted_average :: "(real \<times> nat) list \<Rightarrow> real" where
  "weighted_average vs =
     sum_list (map (\<lambda>(v, n). v * real n) vs) / real (sum_list (map snd vs))"

text \<open>
  A log message over a list of batches: one value for each key that the batches report, the
  average of the key's values weighted by the batch sizes, whose sum is positive.
\<close>

definition averages_of :: "config \<Rightarrow> train_batch list \<Rightarrow> (string \<times> real) list \<Rightarrow> bool" where
  "averages_of cfg bs vals \<longleftrightarrow>
     distinct (map fst vals) \<and>
     set (map fst vals) = set (concat (map (\<lambda>b. map fst (updates cfg b)) bs)) \<and>
     list_all (\<lambda>(k, a). 0 < sum_list (map snd (key_values cfg k bs)) \<and>
                        a = weighted_average (key_values cfg k bs)) vals"

text \<open>
  What a log message of a run must be: the message of iteration \<open>i\<close> of epoch \<open>e\<close> is over the
  batches \<open>0, \<dots>, i\<close> of that epoch, the message at the end of epoch \<open>e\<close> is over all of them.
\<close>

fun log_ok :: "config \<Rightarrow> (int \<Rightarrow> 'f epoch_io) \<Rightarrow> event \<Rightarrow> bool" where
  "log_ok cfg io (LogIter e i vals) =
     (i < length (train_batches (io e)) \<and>
      averages_of cfg (take (Suc i) (train_batches (io e))) vals)"
| "log_ok cfg io (LogAvg e vals) = averages_of cfg (train_batches (io e)) vals"
| "log_ok cfg io ev = True"

text \<open>Calls among which no checkpoint is written.\<close>

definition no_save :: "event list \<Rightarrow> bool" where
  "no_save evs \<longleftrightarrow> list_all (\<lambda>ev. \<not> is_best_save ev \<and> \<not> is_periodic_save ev) evs"

text \<open>
  The state of a run whose batches are all complete, and the calls of a run that an
  exception has cut, possibly after the forward pass of a batch.
\<close>

definition batches_done :: "tstate \<Rightarrow> bool" where
  "batches_done s \<longleftrightarrow>
     batch_calls (trace s) = concat (replicate (global_step s) batch_pattern)"

definition batches_cut :: "error \<times> event list \<Rightarrow> bool" where
  "batches_cut x \<longleftrightarrow>
     (\<exists>n. batch_calls (snd x) = concat (replicate n batch_pattern) \<or>
          batch_calls (snd x) = concat (replicate n batch_pattern) @ [Forward])"


subsection \<open>A small run\<close>

text \<open>
  Two epochs of one training batch each; the gallery and the queries of every evaluation are
  the same single sample, so every recall is \<open>1\<close>. The theorems are instantiated at this run.
\<close>

definition ex_data :: "real batch list" where
  "ex_data = [[([1], 7)]]"

definition ex_batch :: train_batch where
  "ex_batch = \<lparr>batch_size = 2, loss_dict = [(''loss'', 3)], metric_dict = [(''top1'', 1)]\<rparr>"

definition ex_io :: "int \<Rightarrow> real epoch_io" where
  "ex_io e = \<lparr>eval0_gallery = ex_data, eval0_query = ex_data, train_batches = [ex_batch],
              eval_gallery = ex_data, eval_query = ex_data\<rparr>"

definition ex_cfg :: config where
  "ex_cfg = \<lparr>epochs = 2, print_batch_step = 1, save_interval = 2, eval_during_train = 1,
             checkpoints = False, num_split = 1, loss_train = True, metric_train = True\<rparr>"

definition ex_st0 :: tstate where
  "ex_st0 = \<lparr>best_metric = \<lparr>metric = 0, epoch = 0\<rparr>, output_info = [], global_step = 0,
             trace = []\<rparr>"

text \<open>
  For the proofs about the meters: the updates of a list of batches one after the other, each
  with its key, its value and its weight, and the two sums of a key over them.
\<close>

definition flat_updates :: "config \<Rightarrow> train_batch list \<Rightarrow> (string \<times> real \<times> nat) list" where
  "flat_updates cfg bs =
     concat (map (\<lambda>b. map (\<lambda>(k, v). (k, v, batch_size b)) (updates cfg b)) bs)"

definition key_sum :: "string \<Rightarrow> (string \<times> real \<times> nat) list \<Rightarrow> real" where
  "key_sum key ups = sum_list (map (\<lambda>(k, v, n). v * real n) (filter (\<lambda>(k, v, n). k = key) ups))"

definition key_count :: "string \<Rightarrow> (string \<times> real \<times> nat) list \<Rightarrow> nat" where
  "key_count key ups = sum_list (map (\<lambda>(k, v, n). n) (filter (\<lambda>(k, v, n). k = key) ups))"

definition meters_of :: "(string \<times> real \<times> nat) list \<Rightarrow> info \<Rightarrow> bool" where
  "meters_of ups oi \<longleftrightarrow>
     distinct (map fst oi) \<and> set (map fst oi) = set (map fst ups) \<and>
     list_all (\<lambda>(k, m). meter_sum m = key_sum k ups \<and> meter_count m = key_count k ups \<and>
                        meter_avg m = key_sum k ups / real (key_count k ups)) oi"

definition logs_ok :: "config \<Rightarrow> (int \<Rightarrow> 'f epoch_io) \<Rightarrow> event list \<Rightarrow> bool" where
  "logs_ok cfg io tr = list_all (log_ok cfg io) tr"

text \<open>The log message of the small run, its state after the first and after the second epoch.\<close>

definition ex_vals :: "(string \<times> real) list" where
  "ex_vals = [(''loss'', 3), (''top1'', 1)]"

definition ex_st1 :: tstate where
  "ex_st1 = \<lparr>best_metric = \<lparr>metric = 1, epoch = 1\<rparr>, output_info = [], global_step = 1,
             trace = [EvalCall 0, ModelTrain, Forward, LogIter 1 0 ex_vals,
                      Backward, OptimizerStep, ClearGrad, LrStep,
                      LogAvg 1 ex_vals, EvalCall 1, SaveModel best_model 1 1]\<rparr>"

definition ex_st2 :: tstate where
  "ex_st2 = \<lparr>best_metric = \<lparr>metric = 1, epoch = 1\<rparr>, output_info = [], global_step = 2,
             trace = trace ex_st1 @
                     [EvalCall 0, ModelTrain, Forward, LogIter 2 0 ex_vals,
                      Backward, OptimizerStep, ClearGrad, LrStep,
                      LogAvg 2 ex_vals, EvalCall 2, SaveModel (ppcls_epoch 2) 1 2]\<rparr>"

text \<open>A configuration that resumes from a checkpoint of epoch 1, and the checkpoint's metric info.\<close>

definition ex_cfg_resume :: config where
  "ex_cfg_resume = ex_cfg\<lparr>checkpoints := True\<rparr>"

definition ex_info :: metric_info where
  "ex_info = \<lparr>saved_metric = Some 1, saved_epoch = Some 1\<rparr>"

definition ex_resumed :: tstate where
  "ex_resumed = \<lparr>best_metric = \<lparr>metric = 1, epoch = 1\<rparr>, output_info = [], global_step = 0,
                 trace = [InitModel]\<rparr>"

subsection \<open>A run of two batches\<close>

text \<open>
  One epoch of two training batches of the sizes 1 and 3, whose losses are 1 and 5: the
  average of the losses weighted by the batch sizes is 4, their plain average is 3. No
  evaluation is due at the end of the epoch, and every epoch saves a checkpoint.
\<close>

definition ex2_batches :: "train_batch list" where
  "ex2_batches = [\<lparr>batch_size = 1, loss_dict = [(''loss'', 1)], metric_dict = []\<rparr>,
                  \<lparr>batch_size = 3, loss_dict = [(''loss'', 5)], metric_dict = []\<rparr>]"

definition ex2_io :: "int \<Rightarrow> real epoch_io" where
  "ex2_io e = \<lparr>eval0_gallery = ex_data, eval0_query = ex_data, train_batches = ex2_batches,
               eval_gallery = ex_data, eval_query = ex_data\<rparr>"

definition ex2_cfg :: config where
  "ex2_cfg = \<lparr>epochs = 1, print_batch_step = 1, save_interval = 1, eval_during_train = 0,
              checkpoints = False, num_split = 1, loss_train = True, metric_train = False\<rparr>"

definition ex2_st :: tstate where
  "ex2_st = \<lparr>best_metric = \<lparr>metric = 0, epoch = 0\<rparr>, output_info = [], global_step = 2,
             trace = [EvalCall 0, ModelTrain,
                      Forward, LogIter 1 0 [(''loss'', 1)],
                      Backward, OptimizerStep, ClearGrad, LrStep,
                      Forward, LogIter 1 1 [(''loss'', 4)],
                      Backward, OptimizerStep, ClearGrad, LrStep,
                      LogAvg 1 [(''loss'', 4)], SaveModel (ppcls_epoch 1) 0 1]\<rparr>"

section \<open>Properties of \<^verbatim>\<open>Trainer.eval\<close>\<close>

subsection \<open>The loops of the evaluation\<close>





lemma concat_chunks: "length xs = sz * k \<Longrightarrow> concat (chunks sz k xs) = xs"
proof (induction k arbitrary: xs)
  case 0
  then show ?case by simp
next
  case (Suc k)
  have "length (drop sz xs) = sz * k" using Suc.prems by simp
  then show ?case by (simp add: Suc.IH)
qed

lemma split_Inr:
  assumes "0 < num" and "int (length x) mod num = 0"
  shows "\<exists>blocks. split x num = Inr blocks \<and> concat blocks = x \<and> blocks \<noteq> []"
proof -
  have "num dvd int (length x)"
    using assms(2) by (simp add: mod_eq_0_iff_dvd)
  then have "nat num dvd length x"
    using assms(1) by (simp add: nat_dvd_iff)
  then have "length x = (length x div nat num) * nat num" by simp
  moreover have "nat num \<noteq> 0" using assms by simp
  ultimately show ?thesis
    using assms by (cases "nat num") (auto simp: split_def concat_chunks)
qed

lemma mapM_append:
  "mapM f (xs @ ys) =
     (case mapM f xs of
        Inl e \<Rightarrow> Inl e
      | Inr a \<Rightarrow> (case mapM f ys of Inl e \<Rightarrow> Inl e | Inr b \<Rightarrow> Inr (a @ b)))"
  by (induction xs) (simp_all split: sum.splits)

lemma mapM_length: "mapM f xs = Inr ys \<Longrightarrow> length ys = length xs"
  by (induction xs arbitrary: ys) (auto split: sum.splits)

lemma choose_block_append:
  "choose_block pd G L (xs @ ys) =
     (case choose_block pd G L xs of
        Inl e \<Rightarrow> Inl e
      | Inr a \<Rightarrow> (case choose_block pd G L ys of Inl e \<Rightarrow> Inl e | Inr b \<Rightarrow> Inr (a @ b)))"
  unfolding choose_block_def matmul_T_def by (simp add: mapM_append)

lemma choose_block_Nil: "choose_block pd G L [] = Inr []"
  by (simp add: choose_block_def matmul_T_def)

lemma choose_blocks_Some:
  "choose_blocks pd G L blocks (Some c) =
     (case choose_block pd G L (concat blocks) of
        Inl e \<Rightarrow> Inl e
      | Inr t \<Rightarrow> Inr (Some (c @ t)))"
proof (induction blocks arbitrary: c)
  case Nil
  show ?case by (simp add: choose_block_Nil)
next
  case (Cons b blocks)
  show ?case
    by (simp add: choose_block_append Cons.IH split: sum.splits)
qed

lemma choose_blocks_None:
  "blocks \<noteq> [] \<Longrightarrow>
   choose_blocks pd G L blocks None =
     (case choose_block pd G L (concat blocks) of
        Inl e \<Rightarrow> Inl e
      | Inr t \<Rightarrow> Inr (Some t))"
  by (cases blocks) (simp_all add: choose_block_append choose_blocks_Some split: sum.splits)

lemma choose_block_length:
  "choose_block pd G L Q = Inr c \<Longrightarrow> length c = length Q"
  by (auto simp: choose_block_def matmul_T_def dest: mapM_length)





lemma mapM_nth: "mapM f xs = Inr ys \<Longrightarrow> i < length xs \<Longrightarrow> f (xs ! i) = Inr (ys ! i)"
proof (induction xs arbitrary: ys i)
  case Nil
  then show ?case by simp
next
  case (Cons x xs)
  then show ?case
    by (cases i) (auto split: sum.splits)
qed

lemma choose_block_nth:
  assumes "choose_block pd G L Q = Inr c" and "i < length Q"
  shows "choose_block pd G L [Q ! i] = Inr [c ! i]"
proof -
  let ?f = "\<lambda>row. case first_index (paddle_argsort pd row) of
                     Inl e \<Rightarrow> Inl e | Inr i \<Rightarrow> gather L i"
  have "mapM ?f (map (\<lambda>q. map (paddle_matmul pd q) G) Q) = Inr c"
    using assms(1) by (simp add: choose_block_def matmul_T_def)
  from mapM_nth [OF this, of i] assms(2)
  have "?f (map (paddle_matmul pd (Q ! i)) G) = Inr (c ! i)" by simp
  then show ?thesis
    by (simp add: choose_block_def matmul_T_def)
qed

subsection \<open>Splitting the queries into blocks\<close>

text \<open>
  Claim C9. When the number of rows of the query feature matrix is divisible by a positive
  \<^verbatim>\<open>Global.num_split\<close>, \<^verbatim>\<open>paddle.split\<close> returns blocks, and the labels chosen block
  by block and concatenated are the labels chosen on the unsplit matrix, with the same error if
  a row fails. The result has one label per query, and the label at index \<open>i\<close> is the one
  chosen for the query at index \<open>i\<close>, so the comparison with \<^verbatim>\<open>query_labs\<close> is aligned.
  This holds for every framework, whatever its \<^verbatim>\<open>matmul\<close> and \<^verbatim>\<open>argsort\<close> compute.
\<close>

theorem split_choose_aligned:
  assumes "0 < ns" and "int (length query_feas) mod ns = 0"
  shows "(\<exists>fea_blocks. split query_feas ns = Inr fea_blocks \<and>
            choose_blocks pd all_feas all_labs fea_blocks None =
              (case choose_block pd all_feas all_labs query_feas of
                 Inl e \<Rightarrow> Inl e
               | Inr c \<Rightarrow> Inr (Some c))) \<and>
         (\<forall>c. choose_block pd all_feas all_labs query_feas = Inr c \<longrightarrow>
            length c = length query_feas \<and>
            (\<forall>i < length query_feas.
               choose_block pd all_feas all_labs [query_feas ! i] = Inr [c ! i]))"
proof -
  obtain blocks where b: "split query_feas ns = Inr blocks"
      "concat blocks = query_feas" "blocks \<noteq> []"
    using split_Inr [OF assms] by blast
  have "choose_blocks pd all_feas all_labs blocks None =
      (case choose_block pd all_feas all_labs query_feas of
         Inl e \<Rightarrow> Inl e | Inr c \<Rightarrow> Inr (Some c))"
    using choose_blocks_None [OF b(3), of pd all_feas all_labs] b(2) by simp
  with b(1) show ?thesis
    by (auto dest: choose_block_length choose_block_nth)
qed

subsection \<open>The value of the evaluation\<close>


subsection \<open>The evaluation with exact arithmetic\<close>

lemma exact_fields:
  "paddle_square exact = (\<lambda>x. x * x)" "paddle_sum exact = sum_list" "paddle_sqrt exact = sqrt"
  "paddle_divide exact = (\<lambda>x n. x / n)"
  "paddle_matmul exact = (\<lambda>u v. sum_list (map2 (*) u v))"
  "paddle_argsort exact = argsort_stable"
  "paddle_mean exact = (\<lambda>bs. real (length (filter (\<lambda>b. b) bs)) / real (length bs))"
  by (simp_all add: exact_def)


lemma exact_norms:
  "feas_norm exact [1, 0] = 1" "feas_norm exact [0, 2] = 2" "feas_norm exact [0, 1] = 1"
  "feas_norm exact [2, 0] = 2" "feas_norm exact [1] = 1"
  by (simp_all add: feas_norm_def exact_fields)


text \<open>Claim C9 at two queries, two gallery items and two blocks.\<close>

theorem split_choose_aligned_witness:
  "(0::int) < 2 \<and> int (length [[1, 0], [0, 1::real]]) mod 2 = 0 \<and>
   split [[1, 0], [0, 1::real]] 2 = Inr [[[1, 0]], [[0, 1]]] \<and>
   choose_blocks exact [[0, 1], [1, 0]] [5, 6] [[[1, 0]], [[0, 1]]] None = Inr (Some [6, 5])"
proof -
  have h1: "(0::int) < 2" by simp
  have h2: "int (length [[1, 0], [0, 1::real]]) mod 2 = 0" by simp
  have s: "split [[1, 0], [0, 1::real]] 2 = Inr [[[1, 0]], [[0, 1]]]"
    by code_simp
  have c: "choose_block exact [[0, 1], [1, 0]] [5, 6] [[1, 0], [0, 1]] = Inr [6, 5]"
    by (simp add: choose_block_def matmul_T_def exact_fields argsort_stable_def
        first_index_def gather_def)
  from split_choose_aligned [OF h1 h2, of exact "[[0, 1], [1, 0]]" "[5, 6]"] s c
  show ?thesis by simp
qed



section \<open>Properties of \<^verbatim>\<open>Trainer.train\<close>\<close>

subsection \<open>The epoch loop\<close>

lemma epoch_loop_run_epochs:
  "epoch_loop pd cfg io e st = Some (run_epochs pd cfg io [e..epochs cfg] st)"
proof (induction "nat (epochs cfg + 1 - e)" arbitrary: e st)
  case 0
  then have "\<not> e < epochs cfg + 1" and "[e..epochs cfg] = []"
    by simp_all
  then show ?case
    by (subst epoch_loop.simps) simp
next
  case (Suc n)
  then have lt: "e < epochs cfg + 1" and n: "n = nat (epochs cfg + 1 - (e + 1))"
    by simp_all
  have up: "[e..epochs cfg] = e # [e + 1..epochs cfg]"
    using lt by (simp add: upto_rec1)
  show ?case
  proof (cases "train_epoch pd cfg e (io e) st")
    case (Inl x)
    with lt up show ?thesis
      by (subst epoch_loop.simps) simp
  next
    case (Inr st')
    have "epoch_loop pd cfg io (e + 1) st' =
        Some (run_epochs pd cfg io [e + 1..epochs cfg] st')"
      by (rule Suc.hyps(1) [OF n])
    with lt up Inr show ?thesis
      by (subst epoch_loop.simps) simp
  qed
qed

lemma train_run_epochs:
  "train pd cfg init_model io =
     Some (run_epochs pd cfg io
             [epoch (best_metric (init_state cfg init_model)) + 1..epochs cfg]
             (init_state cfg init_model))"
  by (simp add: train_def epoch_loop_run_epochs Let_def)

text \<open>
  Claim C7. \<^verbatim>\<open>Trainer.train\<close> ends, with a state or with an exception, for every
  configuration and for everything that the dataloaders (finite lists of batches) and the
  network yield: the epoch loop counts from the resume epoch up to \<^verbatim>\<open>Global.epochs\<close>.
\<close>

theorem train_terminates: "\<exists>r. train pd cfg init_model io = Some r"
  by (simp add: train_run_epochs)

text \<open>
  Claim C2. With a checkpoint configured, \<^verbatim>\<open>train\<close> first calls \<^verbatim>\<open>init_model\<close>, the
  metric info that it returns replaces the entries of \<^verbatim>\<open>best_metric\<close>, and the bodies of
  the epochs \<open>best_metric["epoch"] + 1, \<dots>, Global.epochs\<close> run in this order. With no
  checkpoint configured nothing is loaded and the epochs \<open>1, \<dots>, Global.epochs\<close> run.
\<close>

theorem train_resumes:
  "(checkpoints cfg \<longrightarrow>
      (let best = (case init_model of
                     None \<Rightarrow> \<lparr>metric = 0, epoch = 0\<rparr>
                   | Some mi \<Rightarrow> update_best \<lparr>metric = 0, epoch = 0\<rparr> mi)
       in train pd cfg init_model io =
            Some (run_epochs pd cfg io [epoch best + 1..epochs cfg]
                    \<lparr>best_metric = best, output_info = [], global_step = 0,
                     trace = [InitModel]\<rparr>))) \<and>
   (\<not> checkpoints cfg \<longrightarrow>
      train pd cfg init_model io =
        Some (run_epochs pd cfg io [1..epochs cfg]
                \<lparr>best_metric = \<lparr>metric = 0, epoch = 0\<rparr>, output_info = [], global_step = 0,
                 trace = []\<rparr>))"
  by (cases init_model) (simp_all add: train_run_epochs init_state_def emit_def Let_def)


subsection \<open>One batch, one epoch\<close>

lemma update_all_append:
  "update_all (d1 @ d2) n oi = update_all d2 n (update_all d1 n oi)"
  by (simp add: update_all_def)

lemma update_all_Nil: "update_all [] n oi = oi"
  by (simp add: update_all_def)

text \<open>The body of the batch loop, with its three exceptions and its result side by side.\<close>

lemma train_step_eq:
  "train_step cfg e i b st =
     (let oi = update_all (updates cfg b) (batch_size b) (output_info st);
          log = (if int i mod print_batch_step cfg = 0 then [LogIter e i (avgs oi)] else [])
      in if \<not> loss_train cfg then Inl (TypeError, trace st @ [Forward])
         else if print_batch_step cfg = 0 then Inl (ZeroDivisionError, trace st @ [Forward])
         else if map_of (loss_dict b) ''loss'' = None
           then Inl (KeyError, trace st @ [Forward] @ log)
         else Inr (st\<lparr>global_step := Suc (global_step st), output_info := oi,
                      trace := trace st @ [Forward] @ log @
                               [Backward, OptimizerStep, ClearGrad, LrStep]\<rparr>))"
  by (simp add: train_step_def Let_def emit_def updates_def update_all_append update_all_Nil
      split: option.splits)

lemma train_iters_rule:
  assumes "I st"
    and "\<And>i b s s'. I s \<Longrightarrow> train_step cfg e i b s = Inr s' \<Longrightarrow> I s'"
    and "\<And>i b s x. I s \<Longrightarrow> train_step cfg e i b s = Inl x \<Longrightarrow> E x"
  shows "case train_iters cfg e i bs st of Inl x \<Rightarrow> E x | Inr s \<Rightarrow> I s"
  using assms(1)
proof (induction bs arbitrary: i st)
  case Nil
  then show ?case by simp
next
  case (Cons b bs)
  show ?case
  proof (cases "train_step cfg e i b st")
    case (Inl x)
    then show ?thesis using assms(3) [OF Cons.prems Inl] by simp
  next
    case (Inr s')
    have "I s'" using assms(2) [OF Cons.prems Inr] .
    from Cons.IH [OF this, of "Suc i"] Inr show ?thesis by simp
  qed
qed

text \<open>The batch loop leaves \<^verbatim>\<open>best_metric\<close> alone and writes no checkpoint.\<close>

lemma train_step_frame:
  assumes "train_step cfg e i b st = Inr st'"
  shows "best_metric st' = best_metric st \<and>
         (\<exists>new. trace st' = trace st @ new \<and> no_save new)"
  using assms
  by (auto simp: train_step_eq Let_def no_save_def split: if_splits)

lemma train_iters_frame:
  assumes "train_iters cfg e i bs st = Inr st'"
  shows "best_metric st' = best_metric st \<and>
         (\<exists>new. trace st' = trace st @ new \<and> no_save new)"
proof -
  let ?I = "\<lambda>s. best_metric s = best_metric st \<and> (\<exists>new. trace s = trace st @ new \<and> no_save new)"
  have "case train_iters cfg e i bs st of Inl x \<Rightarrow> True | Inr s \<Rightarrow> ?I s"
  proof (rule train_iters_rule [where I = ?I and E = "\<lambda>x. True"])
    show "?I st" by (simp add: no_save_def)
  next
    fix i b s s'
    assume s: "?I s" and t: "train_step cfg e i b s = Inr s'"
    from s obtain new where n: "trace s = trace st @ new" "no_save new" by blast
    from train_step_frame [OF t] obtain new' where
      n': "best_metric s' = best_metric s" "trace s' = trace s @ new'" "no_save new'"
      by blast
    have "trace s' = trace st @ (new @ new')" using n(1) n'(2) by simp
    moreover have "no_save (new @ new')" using n(2) n'(3) by (simp add: no_save_def)
    ultimately show "?I s'" using s n'(1) by metis
  qed simp
  with assms show ?thesis by simp
qed

text \<open>The three steps of an epoch that returns.\<close>

lemma train_epoch_Inr:
  assumes "train_epoch pd cfg e io st = Inr st'"
  obtains r0 st2 where
    "eval pd (print_batch_step cfg) (num_split cfg) (eval0_gallery io) (eval0_query io) = Inr r0"
    "train_iters cfg e 0 (train_batches io) (emit [ModelTrain] (emit [EvalCall 0] st)) = Inr st2"
    "eval_and_save pd cfg e io
       ((emit [LogAvg e (avgs (output_info st2))] st2)\<lparr>output_info := []\<rparr>) = Inr st'"
  using assms
  by (auto simp: train_epoch_def Let_def split: sum.splits)

text \<open>
  The end of an epoch that returns: the calls that it adds and the \<^verbatim>\<open>best_metric\<close> that it
  leaves, by whether the evaluation is due and what it returns.
\<close>

lemma save_periodic_Inr:
  assumes "save_periodic cfg e acc s = Inr s'"
  shows "save_interval cfg \<noteq> 0 \<and>
         s' = s\<lparr>trace := trace s @
                (if e mod save_interval cfg = 0 then [SaveModel (ppcls_epoch e) acc e] else [])\<rparr>"
  using assms
  by (cases "save_interval cfg = 0"; cases "e mod save_interval cfg = 0")
     (simp_all add: save_periodic_def emit_def)

lemma eval_and_save_Inr:
  assumes "eval_and_save pd cfg e io s = Inr s'"
  shows "save_interval cfg \<noteq> 0 \<and> output_info s' = output_info s \<and>
         global_step s' = global_step s \<and>
         (if eval_due cfg e then
            (\<exists>acc. eval pd (print_batch_step cfg) (num_split cfg) (eval_gallery io) (eval_query io) = Inr acc \<and>
               trace s' = trace s @ [EvalCall e] @
                 (if metric (best_metric s) < acc then [SaveModel best_model acc e] else []) @
                 (if e mod save_interval cfg = 0 then [SaveModel (ppcls_epoch e) acc e] else []) \<and>
               best_metric s' =
                 (if metric (best_metric s) < acc then \<lparr>metric = acc, epoch = e\<rparr>
                  else best_metric s))
          else
            trace s' = trace s @
              (if e mod save_interval cfg = 0 then [SaveModel (ppcls_epoch e) 0 e] else []) \<and>
            best_metric s' = best_metric s)"
proof (cases "eval_due cfg e")
  case False
  then have "save_periodic cfg e 0 s = Inr s'"
    using assms by (simp add: eval_and_save_def)
  from save_periodic_Inr [OF this] False show ?thesis
    by simp
next
  case True
  let ?s1 = "emit [EvalCall e] s"
  obtain acc where ev: "eval pd (print_batch_step cfg) (num_split cfg) (eval_gallery io) (eval_query io) = Inr acc"
    using assms True
    by (cases "eval pd (print_batch_step cfg) (num_split cfg) (eval_gallery io) (eval_query io)")
       (simp_all add: eval_and_save_def Let_def)
  show ?thesis
  proof (cases "metric (best_metric s) < acc")
    case better: True
    have "save_periodic cfg e acc
        (emit [SaveModel best_model acc e] (?s1\<lparr>best_metric := \<lparr>metric = acc, epoch = e\<rparr>\<rparr>)) = Inr s'"
      using assms True ev better by (simp add: eval_and_save_def Let_def emit_def)
    from save_periodic_Inr [OF this] True ev better show ?thesis
      by (simp add: emit_def)
  next
    case worse: False
    have "save_periodic cfg e acc ?s1 = Inr s'"
      using assms True ev worse by (simp add: eval_and_save_def Let_def emit_def)
    from save_periodic_Inr [OF this] True ev worse show ?thesis
      by (simp add: emit_def)
  qed
qed


subsection \<open>Checkpoints and the best metric\<close>

lemma no_save_filter:
  assumes "no_save evs"
  shows "filter is_best_save evs = []" and "filter is_periodic_save evs = []"
  using assms by (simp_all add: no_save_def list_all_iff)

lemma no_save_append: "no_save xs \<Longrightarrow> no_save ys \<Longrightarrow> no_save (xs @ ys)"
  by (simp add: no_save_def)

text \<open>
  An epoch that returns has reached its last step in a state whose \<^verbatim>\<open>best_metric\<close> is
  the one of the start of the epoch, with \<^verbatim>\<open>output_info\<close> cleared and no checkpoint
  written so far.
\<close>

lemma train_epoch_last_step:
  assumes "train_epoch pd cfg e io st = Inr st'"
  shows "\<exists>mid s. no_save mid \<and> trace s = trace st @ mid \<and> best_metric s = best_metric st \<and>
           output_info s = [] \<and> eval_and_save pd cfg e io s = Inr st'"
proof -
  from train_epoch_Inr [OF assms] obtain r0 st2 where
    it: "train_iters cfg e 0 (train_batches io) (emit [ModelTrain] (emit [EvalCall 0] st)) = Inr st2"
    and es: "eval_and_save pd cfg e io
       ((emit [LogAvg e (avgs (output_info st2))] st2)\<lparr>output_info := []\<rparr>) = Inr st'"
    by blast
  let ?s = "(emit [LogAvg e (avgs (output_info st2))] st2)\<lparr>output_info := []\<rparr>"
  from train_iters_frame [OF it] obtain new where
    n: "best_metric st2 = best_metric st" "trace st2 = trace st @ [EvalCall 0, ModelTrain] @ new"
       "no_save new"
    by (auto simp: emit_def)
  let ?mid = "[EvalCall 0, ModelTrain] @ new @ [LogAvg e (avgs (output_info st2))]"
  have "no_save ?mid"
    using n(3) by (simp add: no_save_def)
  moreover have "trace ?s = trace st @ ?mid"
    using n(2) by (simp add: emit_def)
  moreover have "best_metric ?s = best_metric st" and "output_info ?s = []"
    using n(1) by (simp_all add: emit_def)
  ultimately show ?thesis using es by blast
qed

text \<open>
  Claim C3. In an epoch that returns, \<^verbatim>\<open>best_metric["metric"]\<close> does not decrease. The
  checkpoint \<^verbatim>\<open>best_model\<close> is written, once, exactly when the evaluation is due in the
  epoch and its recall is greater than the stored metric; \<^verbatim>\<open>best_metric\<close> then holds
  that recall and the number of the epoch, as the checkpoint does, and is unchanged otherwise.
  Over a run that returns, the metric at the end is at least the one at the start.
\<close>

theorem best_model_bookkeeping:
  "(train_epoch pd cfg e io st = Inr st' \<longrightarrow>
      metric (best_metric st) \<le> metric (best_metric st') \<and>
      (\<exists>new. trace st' = trace st @ new \<and>
         (if eval_due cfg e \<and>
             (\<exists>acc. eval pd (print_batch_step cfg) (num_split cfg) (eval_gallery io) (eval_query io) = Inr acc \<and>
                    metric (best_metric st) < acc)
          then \<exists>acc. eval pd (print_batch_step cfg) (num_split cfg) (eval_gallery io) (eval_query io) = Inr acc \<and>
                 filter is_best_save new = [SaveModel best_model acc e] \<and>
                 best_metric st' = \<lparr>metric = acc, epoch = e\<rparr>
          else filter is_best_save new = [] \<and> best_metric st' = best_metric st))) \<and>
   (run_epochs pd cfg ios es st = Inr fin \<longrightarrow>
      metric (best_metric st) \<le> metric (best_metric fin))"
proof (intro conjI impI)
  assume a: "train_epoch pd cfg e io st = Inr st'"
  from train_epoch_last_step [OF a] obtain mid s where
    m: "no_save mid" "trace s = trace st @ mid" "best_metric s = best_metric st"
       "eval_and_save pd cfg e io s = Inr st'"
    by blast
  note f = eval_and_save_Inr [OF m(4)]
  show "metric (best_metric st) \<le> metric (best_metric st')"
    using f m(3) by (auto split: if_splits)
  show "\<exists>new. trace st' = trace st @ new \<and>
         (if eval_due cfg e \<and>
             (\<exists>acc. eval pd (print_batch_step cfg) (num_split cfg) (eval_gallery io) (eval_query io) = Inr acc \<and>
                    metric (best_metric st) < acc)
          then \<exists>acc. eval pd (print_batch_step cfg) (num_split cfg) (eval_gallery io) (eval_query io) = Inr acc \<and>
                 filter is_best_save new = [SaveModel best_model acc e] \<and>
                 best_metric st' = \<lparr>metric = acc, epoch = e\<rparr>
          else filter is_best_save new = [] \<and> best_metric st' = best_metric st)"
  proof (cases "eval_due cfg e")
    case False
    with f have "trace st' = trace st @ (mid @
          (if e mod save_interval cfg = 0 then [SaveModel (ppcls_epoch e) 0 e] else []))"
      and "best_metric st' = best_metric st"
      using m(2,3) by simp_all
    moreover have "filter is_best_save (mid @
          (if e mod save_interval cfg = 0 then [SaveModel (ppcls_epoch e) 0 e] else [])) = []"
      using no_save_filter(1) [OF m(1)] by simp
    ultimately show ?thesis using False by metis
  next
    case True
    with f obtain acc where
      ev: "eval pd (print_batch_step cfg) (num_split cfg) (eval_gallery io) (eval_query io) = Inr acc"
      and tr: "trace st' = trace s @ [EvalCall e] @
                 (if metric (best_metric s) < acc then [SaveModel best_model acc e] else []) @
                 (if e mod save_interval cfg = 0 then [SaveModel (ppcls_epoch e) acc e] else [])"
      and bm: "best_metric st' =
                 (if metric (best_metric s) < acc then \<lparr>metric = acc, epoch = e\<rparr>
                  else best_metric s)"
      by auto
    let ?new = "mid @ [EvalCall e] @
                 (if metric (best_metric st) < acc then [SaveModel best_model acc e] else []) @
                 (if e mod save_interval cfg = 0 then [SaveModel (ppcls_epoch e) acc e] else [])"
    have t: "trace st' = trace st @ ?new"
      using tr m(2,3) by simp
    have fl: "filter is_best_save ?new =
        (if metric (best_metric st) < acc then [SaveModel best_model acc e] else [])"
      using no_save_filter(1) [OF m(1)] by simp
    show ?thesis
    proof (cases "metric (best_metric st) < acc")
      case better: True
      have "filter is_best_save ?new = [SaveModel best_model acc e]"
        using fl better by simp
      moreover have "best_metric st' = \<lparr>metric = acc, epoch = e\<rparr>"
        using bm m(3) better by simp
      ultimately show ?thesis using t True ev better by metis
    next
      case worse: False
      have "filter is_best_save ?new = []"
        using fl worse by simp
      moreover have "best_metric st' = best_metric st"
        using bm m(3) worse by simp
      moreover have "\<not> (\<exists>a. eval pd (print_batch_step cfg) (num_split cfg) (eval_gallery io) (eval_query io) = Inr a \<and>
                    metric (best_metric st) < a)"
        using ev worse by simp
      ultimately show ?thesis using t by metis
    qed
  qed
next
  assume r: "run_epochs pd cfg ios es st = Inr fin"
  have step: "metric (best_metric s) \<le> metric (best_metric s')"
    if "train_epoch pd cfg e (ios e) s = Inr s'" for e s s'
  proof -
    from train_epoch_last_step [OF that] obtain mid u where
      m: "best_metric u = best_metric s" "eval_and_save pd cfg e (ios e) u = Inr s'"
      by blast
    from eval_and_save_Inr [OF m(2)] m(1) show ?thesis
      by (auto split: if_splits)
  qed
  from r show "metric (best_metric st) \<le> metric (best_metric fin)"
  proof (induction es arbitrary: st)
    case Nil
    then show ?case by simp
  next
    case (Cons e es)
    then obtain s' where s: "train_epoch pd cfg e (ios e) st = Inr s'"
      and rest: "run_epochs pd cfg ios es s' = Inr fin"
      by (auto split: sum.splits)
    from step [OF s] Cons.IH [OF rest] show ?case by simp
  qed
qed

text \<open>
  Claim C4. In an epoch that returns, the checkpoint with the prefix \<^verbatim>\<open>ppcls_epoch_N\<close>
  is written, once, when the number \<open>N\<close> of the epoch is divisible by
  \<^verbatim>\<open>Global.save_interval\<close>: it records the number of the epoch and the metric of the
  epoch, the recall of the evaluation if it was due and \<open>0.0\<close> if not. When the number of the
  epoch is not divisible, no such checkpoint is written.
\<close>

theorem periodic_checkpoint:
  assumes "train_epoch pd cfg e io st = Inr st'"
  shows "\<exists>new. trace st' = trace st @ new \<and>
           (if e mod save_interval cfg = 0
            then \<exists>acc. filter is_periodic_save new = [SaveModel (ppcls_epoch e) acc e] \<and>
                   (if eval_due cfg e
                    then eval pd (print_batch_step cfg) (num_split cfg) (eval_gallery io) (eval_query io) = Inr acc
                    else acc = 0)
            else filter is_periodic_save new = [])"
proof -
  from train_epoch_last_step [OF assms] obtain mid s where
    m: "no_save mid" "trace s = trace st @ mid"
       "eval_and_save pd cfg e io s = Inr st'"
    by blast
  note f = eval_and_save_Inr [OF m(3)]
  note nf = no_save_filter(2) [OF m(1)]
  show ?thesis
  proof (cases "eval_due cfg e")
    case False
    let ?new = "mid @ (if e mod save_interval cfg = 0 then [SaveModel (ppcls_epoch e) 0 e] else [])"
    have t: "trace st' = trace st @ ?new"
      using f False m(2) by simp
    show ?thesis
      by (rule exI [of _ ?new]) (simp add: t nf False)
  next
    case True
    with f obtain acc where
      ev: "eval pd (print_batch_step cfg) (num_split cfg) (eval_gallery io) (eval_query io) = Inr acc"
      and tr: "trace st' = trace s @ [EvalCall e] @
                 (if metric (best_metric s) < acc then [SaveModel best_model acc e] else []) @
                 (if e mod save_interval cfg = 0 then [SaveModel (ppcls_epoch e) acc e] else [])"
      by auto
    let ?new = "mid @ [EvalCall e] @
                 (if metric (best_metric s) < acc then [SaveModel best_model acc e] else []) @
                 (if e mod save_interval cfg = 0 then [SaveModel (ppcls_epoch e) acc e] else [])"
    have t: "trace st' = trace st @ ?new"
      using tr m(2) by simp
    show ?thesis
      by (rule exI [of _ ?new]) (simp add: t nf True ev)
  qed
qed


subsection \<open>The evaluation at the start of an epoch\<close>

lemma eval_and_save_eval0:
  "eval_and_save pd cfg e (io\<lparr>eval0_gallery := g, eval0_query := q\<rparr>) s =
   eval_and_save pd cfg e io s"
  by (simp add: eval_and_save_def)

text \<open>
  Claim C8. In an epoch that returns, every checkpoint \<^verbatim>\<open>ppcls_epoch_N\<close> that the epoch
  writes records the recall of the evaluation after the training batches if that evaluation was
  due, and \<open>0.0\<close> if it was not. The value of the evaluation at the start of the epoch is not
  used: whatever that evaluation returns, the epoch makes the same calls, writes the same
  checkpoints and leaves the same state.
\<close>

theorem start_eval_discarded:
  assumes "train_epoch pd cfg e io st = Inr st'"
  shows "(\<exists>new. trace st' = trace st @ new \<and>
            (\<forall>k m j. SaveModel (ppcls_epoch k) m j \<in> set new \<longrightarrow>
               (if eval_due cfg e
                then eval pd (print_batch_step cfg) (num_split cfg) (eval_gallery io) (eval_query io) = Inr m
                else m = 0))) \<and>
         (\<forall>g q r. eval pd (print_batch_step cfg) (num_split cfg) g q = Inr r \<longrightarrow>
            train_epoch pd cfg e (io\<lparr>eval0_gallery := g, eval0_query := q\<rparr>) st = Inr st')"
proof
  from train_epoch_last_step [OF assms] obtain mid s where
    m: "no_save mid" "trace s = trace st @ mid"
       "eval_and_save pd cfg e io s = Inr st'"
    by blast
  note f = eval_and_save_Inr [OF m(3)]
  have nm: "SaveModel (ppcls_epoch k) a j \<notin> set mid" for k a j
    using m(1) by (auto simp: no_save_def list_all_iff)
  show "\<exists>new. trace st' = trace st @ new \<and>
            (\<forall>k m j. SaveModel (ppcls_epoch k) m j \<in> set new \<longrightarrow>
               (if eval_due cfg e
                then eval pd (print_batch_step cfg) (num_split cfg) (eval_gallery io) (eval_query io) = Inr m
                else m = 0))"
  proof (cases "eval_due cfg e")
    case False
    let ?new = "mid @ (if e mod save_interval cfg = 0 then [SaveModel (ppcls_epoch e) 0 e] else [])"
    have t: "trace st' = trace st @ ?new"
      using f False m(2) by simp
    show ?thesis
      by (rule exI [of _ ?new]) (simp add: t nm False)
  next
    case True
    with f obtain acc where
      ev: "eval pd (print_batch_step cfg) (num_split cfg) (eval_gallery io) (eval_query io) = Inr acc"
      and tr: "trace st' = trace s @ [EvalCall e] @
                 (if metric (best_metric s) < acc then [SaveModel best_model acc e] else []) @
                 (if e mod save_interval cfg = 0 then [SaveModel (ppcls_epoch e) acc e] else [])"
      by auto
    let ?new = "mid @ [EvalCall e] @
                 (if metric (best_metric s) < acc then [SaveModel best_model acc e] else []) @
                 (if e mod save_interval cfg = 0 then [SaveModel (ppcls_epoch e) acc e] else [])"
    have t: "trace st' = trace st @ ?new"
      using tr m(2) by simp
    show ?thesis
      by (rule exI [of _ ?new]) (simp add: t nm True ev)
  qed
next
  show "\<forall>g q r. eval pd (print_batch_step cfg) (num_split cfg) g q = Inr r \<longrightarrow>
            train_epoch pd cfg e (io\<lparr>eval0_gallery := g, eval0_query := q\<rparr>) st = Inr st'"
  proof (intro allI impI)
    fix g q r
    assume e0: "eval pd (print_batch_step cfg) (num_split cfg) g q = Inr r"
    from train_epoch_Inr [OF assms] obtain r0 st2 where
      it: "train_iters cfg e 0 (train_batches io) (emit [ModelTrain] (emit [EvalCall 0] st)) = Inr st2"
      and es: "eval_and_save pd cfg e io
         ((emit [LogAvg e (avgs (output_info st2))] st2)\<lparr>output_info := []\<rparr>) = Inr st'"
      by blast
    show "train_epoch pd cfg e (io\<lparr>eval0_gallery := g, eval0_query := q\<rparr>) st = Inr st'"
      by (simp add: train_epoch_def Let_def e0 it eval_and_save_eval0 es)
  qed
qed

subsection \<open>Parameter updates\<close>

lemma run_epochs_rule:
  assumes "I st"
    and "\<And>e s s'. I s \<Longrightarrow> train_epoch pd cfg e (io e) s = Inr s' \<Longrightarrow> I s'"
    and "\<And>e s x. I s \<Longrightarrow> train_epoch pd cfg e (io e) s = Inl x \<Longrightarrow> E x"
  shows "case run_epochs pd cfg io es st of Inl x \<Rightarrow> E x | Inr s \<Rightarrow> I s"
  using assms(1)
proof (induction es arbitrary: st)
  case Nil
  then show ?case by simp
next
  case (Cons e es)
  show ?case
  proof (cases "train_epoch pd cfg e (io e) st")
    case (Inl x)
    then show ?thesis using assms(3) [OF Cons.prems Inl] by simp
  next
    case (Inr s')
    have "I s'" using assms(2) [OF Cons.prems Inr] .
    from Cons.IH [OF this] Inr show ?thesis by simp
  qed
qed

lemma concat_replicate_Suc:
  "concat (replicate (Suc n) p) = concat (replicate n p) @ p"
  by (induction n) simp_all

lemma batches_done_emit:
  "batches_done s \<Longrightarrow> batch_calls evs = [] \<Longrightarrow> batches_done (emit evs s)"
  by (simp add: batches_done_def emit_def batch_calls_def)

lemma batches_done_cut:
  "batches_done s \<Longrightarrow> batch_calls evs = [] \<Longrightarrow> batches_cut (x, trace s @ evs)"
  by (auto simp: batches_done_def batches_cut_def batch_calls_def)

lemma train_step_batches:
  assumes "batches_done s"
  shows "case train_step cfg e i b s of Inl x \<Rightarrow> batches_cut x | Inr s' \<Rightarrow> batches_done s'"
proof -
  let ?oi = "update_all (updates cfg b) (batch_size b) (output_info s)"
  let ?log = "if int i mod print_batch_step cfg = 0 then [LogIter e i (avgs ?oi)] else []"
  have l: "batch_calls ?log = []"
    by (simp add: batch_calls_def)
  have c1: "batch_calls (trace s @ [Forward]) =
      concat (replicate (global_step s) batch_pattern) @ [Forward]"
    using assms by (simp add: batches_done_def batch_calls_def)
  have c2: "batch_calls (trace s @ [Forward] @ ?log) =
      concat (replicate (global_step s) batch_pattern) @ [Forward]"
    using assms by (simp add: batches_done_def batch_calls_def)
  have c3: "batch_calls (trace s @ [Forward] @ ?log @ [Backward, OptimizerStep, ClearGrad, LrStep]) =
      concat (replicate (Suc (global_step s)) batch_pattern)"
    using assms unfolding concat_replicate_Suc
    by (simp add: batches_done_def batch_calls_def batch_pattern_def)
  have k1: "batches_cut (x, trace s @ [Forward])" for x
    unfolding batches_cut_def using c1 by (metis snd_conv)
  have k2: "batches_cut (x, trace s @ [Forward] @ ?log)" for x
    unfolding batches_cut_def using c2 by (metis snd_conv)
  have k3: "batches_done (s\<lparr>global_step := Suc (global_step s), output_info := ?oi,
      trace := trace s @ [Forward] @ ?log @ [Backward, OptimizerStep, ClearGrad, LrStep]\<rparr>)"
    unfolding batches_done_def using c3 by simp
  show ?thesis
    unfolding train_step_eq Let_def using k1 k2 k3 by simp
qed

lemma batches_done_best:
  "batches_done (s\<lparr>best_metric := b\<rparr>) = batches_done s"
  "batches_done (s\<lparr>output_info := oi\<rparr>) = batches_done s"
  by (simp_all add: batches_done_def)

lemma save_periodic_batches:
  assumes "batches_done s"
  shows "case save_periodic cfg e acc s of Inl x \<Rightarrow> batches_cut x | Inr s' \<Rightarrow> batches_done s'"
proof -
  have "batches_cut (ZeroDivisionError, trace s)"
    using batches_done_cut [OF assms, of "[]"] by (simp add: batch_calls_def)
  moreover have "batches_done (emit [SaveModel (ppcls_epoch e) acc e] s)"
    by (rule batches_done_emit [OF assms]) (simp add: batch_calls_def)
  ultimately show ?thesis
    using assms by (simp add: save_periodic_def)
qed

lemma eval_and_save_batches:
  assumes "batches_done s"
  shows "case eval_and_save pd cfg e io s of
           Inl x \<Rightarrow> batches_cut x | Inr s' \<Rightarrow> batches_done s'"
proof (cases "eval_due cfg e")
  case False
  then show ?thesis
    using save_periodic_batches [OF assms] by (simp add: eval_and_save_def)
next
  case True
  have s1: "batches_done (emit [EvalCall e] s)"
    by (rule batches_done_emit [OF assms]) (simp add: batch_calls_def)
  show ?thesis
  proof (cases "eval pd (print_batch_step cfg) (num_split cfg) (eval_gallery io) (eval_query io)")
    case (Inl x)
    have "batches_cut (x, trace s @ [EvalCall e])"
      by (rule batches_done_cut [OF assms]) (simp add: batch_calls_def)
    then show ?thesis
      using True Inl by (simp add: eval_and_save_def Let_def emit_def)
  next
    case (Inr acc)
    have "batches_done (emit [SaveModel best_model acc e]
        ((emit [EvalCall e] s)\<lparr>best_metric := \<lparr>metric = acc, epoch = e\<rparr>\<rparr>))"
      by (rule batches_done_emit) (simp_all add: batches_done_best s1 batch_calls_def)
    from save_periodic_batches [OF this] save_periodic_batches [OF s1]
    show ?thesis
      using True Inr by (simp add: eval_and_save_def Let_def)
  qed
qed

lemma train_epoch_batches:
  assumes "batches_done s"
  shows "case train_epoch pd cfg e io s of
           Inl x \<Rightarrow> batches_cut x | Inr s' \<Rightarrow> batches_done s'"
proof (cases "eval pd (print_batch_step cfg) (num_split cfg) (eval0_gallery io) (eval0_query io)")
  case (Inl x)
  have "batches_cut (x, trace s @ [EvalCall 0])"
    by (rule batches_done_cut [OF assms]) (simp add: batch_calls_def)
  then show ?thesis
    using Inl by (simp add: train_epoch_def Let_def emit_def)
next
  case (Inr r0)
  let ?s1 = "emit [ModelTrain] (emit [EvalCall 0] s)"
  have s1: "batches_done ?s1"
    by (intro batches_done_emit assms) (simp_all add: batch_calls_def)
  have it: "case train_iters cfg e 0 (train_batches io) ?s1 of
      Inl x \<Rightarrow> batches_cut x | Inr s' \<Rightarrow> batches_done s'"
  proof (rule train_iters_rule [where I = batches_done and E = batches_cut, OF s1])
    fix i b u u'
    assume "batches_done u" and "train_step cfg e i b u = Inr u'"
    then show "batches_done u'"
      using train_step_batches [of u cfg e i b] by simp
  next
    fix i b u x
    assume "batches_done u" and "train_step cfg e i b u = Inl x"
    then show "batches_cut x"
      using train_step_batches [of u cfg e i b] by simp
  qed
  show ?thesis
  proof (cases "train_iters cfg e 0 (train_batches io) ?s1")
    case (Inl x)
    with it Inr show ?thesis
      by (simp add: train_epoch_def Let_def)
  next
    case st2: (Inr st2)
    with it have "batches_done st2" by simp
    then have "batches_done ((emit [LogAvg e (avgs (output_info st2))] st2)\<lparr>output_info := []\<rparr>)"
      by (simp add: batches_done_best batches_done_emit batch_calls_def)
    from eval_and_save_batches [OF this] Inr st2 show ?thesis
      by (simp add: train_epoch_def Let_def)
  qed
qed

lemma init_state_batches: "batches_done (init_state cfg init_model)"
  by (cases init_model)
     (simp_all add: init_state_def batches_done_def batch_calls_def emit_def Let_def)

lemma train_batch_calls:
  assumes "train pd cfg init_model io = Some r"
  shows "(\<exists>n. batch_calls (calls r) = concat (replicate n batch_pattern) \<or>
              batch_calls (calls r) = concat (replicate n batch_pattern) @ [Forward]) \<and>
         (\<forall>st. r = Inr st \<longrightarrow>
            batch_calls (trace st) = concat (replicate (global_step st) batch_pattern))"
proof -
  let ?st0 = "init_state cfg init_model"
  have r: "r = run_epochs pd cfg io [epoch (best_metric ?st0) + 1..epochs cfg] ?st0"
    using assms by (simp add: train_run_epochs)
  have "case run_epochs pd cfg io [epoch (best_metric ?st0) + 1..epochs cfg] ?st0 of
      Inl x \<Rightarrow> batches_cut x | Inr s \<Rightarrow> batches_done s"
  proof (rule run_epochs_rule [where I = batches_done and E = batches_cut,
        OF init_state_batches])
    fix e s s'
    assume "batches_done s" and "train_epoch pd cfg e (io e) s = Inr s'"
    then show "batches_done s'"
      using train_epoch_batches [of s pd cfg e "io e"] by simp
  next
    fix e s x
    assume "batches_done s" and "train_epoch pd cfg e (io e) s = Inl x"
    then show "batches_cut x"
      using train_epoch_batches [of s pd cfg e "io e"] by simp
  qed
  then have c: "case r of Inl x \<Rightarrow> batches_cut x | Inr s \<Rightarrow> batches_done s"
    using r by simp
  show ?thesis
  proof (cases r)
    case (Inl x)
    with c have "batches_cut x" by simp
    then show ?thesis
      using Inl by (cases x) (simp add: batches_cut_def calls_def)
  next
    case (Inr s)
    with c have "batches_done s" by simp
    then show ?thesis
      using Inr by (auto simp: batches_done_def calls_def)
  qed
qed

lemma batch_calls_append: "batch_calls (xs @ ys) = batch_calls xs @ batch_calls ys"
  by (simp add: batch_calls_def)

lemma train_step_count:
  assumes "train_step cfg e i b s = Inr s'"
  shows "global_step s' = Suc (global_step s) \<and>
         (\<exists>new. trace s' = trace s @ new \<and> batch_calls new = batch_pattern)"
proof -
  let ?oi = "update_all (updates cfg b) (batch_size b) (output_info s)"
  let ?log = "if int i mod print_batch_step cfg = 0 then [LogIter e i (avgs ?oi)] else []"
  let ?new = "[Forward] @ ?log @ [Backward, OptimizerStep, ClearGrad, LrStep]"
  have s': "s' = s\<lparr>global_step := Suc (global_step s), output_info := ?oi,
      trace := trace s @ ?new\<rparr>"
    using assms by (simp add: train_step_eq Let_def split: if_splits)
  have "batch_calls ?new = batch_pattern"
    by (simp add: batch_calls_def batch_pattern_def)
  moreover have "trace s' = trace s @ ?new" and "global_step s' = Suc (global_step s)"
    by (simp_all add: s')
  ultimately show ?thesis by blast
qed

lemma train_iters_count:
  assumes "train_iters cfg e i bs s = Inr s'"
  shows "global_step s' = global_step s + length bs \<and>
         (\<exists>new. trace s' = trace s @ new \<and>
            batch_calls new = concat (replicate (length bs) batch_pattern))"
  using assms
proof (induction bs arbitrary: i s)
  case Nil
  then show ?case by (simp add: batch_calls_def)
next
  case (Cons b bs)
  then obtain u where u: "train_step cfg e i b s = Inr u"
    and rest: "train_iters cfg e (Suc i) bs u = Inr s'"
    by (auto split: sum.splits)
  from train_step_count [OF u] obtain n1 where
    g1: "global_step u = Suc (global_step s)" and t1: "trace u = trace s @ n1"
    and b1: "batch_calls n1 = batch_pattern"
    by blast
  from Cons.IH [OF rest] obtain n2 where
    g2: "global_step s' = global_step u + length bs" and t2: "trace s' = trace u @ n2"
    and b2: "batch_calls n2 = concat (replicate (length bs) batch_pattern)"
    by blast
  have "trace s' = trace s @ (n1 @ n2)"
    using t1 t2 by simp
  moreover have "batch_calls (n1 @ n2) = concat (replicate (length (b # bs)) batch_pattern)"
    using b1 b2 by (simp add: batch_calls_append)
  moreover have "global_step s' = global_step s + length (b # bs)"
    using g1 g2 by simp
  ultimately show ?case by blast
qed

lemma train_epoch_count:
  assumes "train_epoch pd cfg e io s = Inr s'"
  shows "global_step s' = global_step s + length (train_batches io) \<and>
         (\<exists>new. trace s' = trace s @ new \<and>
            batch_calls new = concat (replicate (length (train_batches io)) batch_pattern))"
proof -
  from train_epoch_Inr [OF assms] obtain r0 st2 where
    it: "train_iters cfg e 0 (train_batches io) (emit [ModelTrain] (emit [EvalCall 0] s)) = Inr st2"
    and es: "eval_and_save pd cfg e io
       ((emit [LogAvg e (avgs (output_info st2))] st2)\<lparr>output_info := []\<rparr>) = Inr s'"
    by blast
  let ?u = "(emit [LogAvg e (avgs (output_info st2))] st2)\<lparr>output_info := []\<rparr>"
  from train_iters_count [OF it] obtain n1 where
    g1: "global_step st2 = global_step s + length (train_batches io)"
    and t1: "trace st2 = trace s @ [EvalCall 0, ModelTrain] @ n1"
    and b1: "batch_calls n1 = concat (replicate (length (train_batches io)) batch_pattern)"
    by (auto simp: emit_def)
  from eval_and_save_Inr [OF es] obtain n2 where
    g2: "global_step s' = global_step ?u" and t2: "trace s' = trace ?u @ n2"
    and b2: "batch_calls n2 = []"
    by (cases "eval_due cfg e") (auto simp: batch_calls_def)
  let ?new = "[EvalCall 0, ModelTrain] @ n1 @ [LogAvg e (avgs (output_info st2))] @ n2"
  have "trace s' = trace s @ ?new"
    using t1 t2 by (simp add: emit_def)
  moreover have "batch_calls ?new = concat (replicate (length (train_batches io)) batch_pattern)"
    using b1 b2 by (simp add: batch_calls_def)
  moreover have "global_step s' = global_step s + length (train_batches io)"
    using g1 g2 by (simp add: emit_def)
  ultimately show ?thesis by blast
qed

lemma run_epochs_count:
  assumes "run_epochs pd cfg io es s = Inr s'"
  shows "global_step s' =
           global_step s + sum_list (map (\<lambda>e. length (train_batches (io e))) es)"
  using assms
proof (induction es arbitrary: s)
  case Nil
  then show ?case by simp
next
  case (Cons e es)
  then obtain u where u: "train_epoch pd cfg e (io e) s = Inr u"
    and rest: "run_epochs pd cfg io es u = Inr s'"
    by (auto split: sum.splits)
  from train_epoch_count [OF u] Cons.IH [OF rest] show ?case
    by simp
qed

lemma init_state_step: "global_step (init_state cfg init_model) = 0"
  by (cases init_model) (simp_all add: init_state_def emit_def Let_def)

text \<open>
  Claim C5. The calls of a run that concern the parameters are, batch after batch, the
  forward pass, \<^verbatim>\<open>loss_dict["loss"].backward()\<close>, \<^verbatim>\<open>optimizer.step()\<close>,
  \<^verbatim>\<open>optimizer.clear_grad()\<close> and \<^verbatim>\<open>lr_sch.step()\<close>, in this order and once each,
  and a run that raises may have made the forward pass of its last batch only. An epoch that
  returns has made them once for every batch of its dataloader; a run that returns has made
  them \<^verbatim>\<open>global_step\<close> times, which is the number of the training batches of all its
  epochs. No call of the optimizer or of the scheduler stands anywhere else.
\<close>

theorem one_update_per_batch:
  assumes "train pd cfg init_model io = Some r"
  shows "(\<exists>n. batch_calls (calls r) = concat (replicate n batch_pattern) \<or>
              batch_calls (calls r) = concat (replicate n batch_pattern) @ [Forward]) \<and>
         (\<forall>st. r = Inr st \<longrightarrow>
            batch_calls (trace st) = concat (replicate (global_step st) batch_pattern) \<and>
            global_step st =
              sum_list (map (\<lambda>e. length (train_batches (io e)))
                [epoch (best_metric (init_state cfg init_model)) + 1..epochs cfg])) \<and>
         (\<forall>e s s'. train_epoch pd cfg e (io e) s = Inr s' \<longrightarrow>
            (\<exists>new. trace s' = trace s @ new \<and>
               batch_calls new =
                 concat (replicate (length (train_batches (io e))) batch_pattern)))"
proof (intro conjI allI impI)
  note b = train_batch_calls [OF assms]
  show "\<exists>n. batch_calls (calls r) = concat (replicate n batch_pattern) \<or>
              batch_calls (calls r) = concat (replicate n batch_pattern) @ [Forward]"
    using b by (rule conjunct1)
  fix st assume r: "r = Inr st"
  show "batch_calls (trace st) = concat (replicate (global_step st) batch_pattern)"
    using b r by simp
  have "run_epochs pd cfg io [epoch (best_metric (init_state cfg init_model)) + 1..epochs cfg]
      (init_state cfg init_model) = Inr st"
    using assms r by (simp add: train_run_epochs)
  from run_epochs_count [OF this]
  show "global_step st =
      sum_list (map (\<lambda>e. length (train_batches (io e)))
        [epoch (best_metric (init_state cfg init_model)) + 1..epochs cfg])"
    by (simp add: init_state_step)
next
  fix e s s'
  assume "train_epoch pd cfg e (io e) s = Inr s'"
  from train_epoch_count [OF this]
  show "\<exists>new. trace s' = trace s @ new \<and>
      batch_calls new = concat (replicate (length (train_batches (io e))) batch_pattern)"
    by (rule conjunct2)
qed


subsection \<open>The averages of the log messages\<close>

lemma update_info_keys:
  "map fst (update_info k v n oi) =
     (if k \<in> set (map fst oi) then map fst oi else map fst oi @ [k])"
  by (induction oi) force+

lemma update_info_mem:
  assumes "distinct (map fst oi)"
  shows "(k', m') \<in> set (update_info k v n oi) \<longleftrightarrow>
         (if k' = k
          then m' = meter_update (case map_of oi k of None \<Rightarrow> new_meter | Some m \<Rightarrow> m) v n
          else (k', m') \<in> set oi)"
  using assms
proof (induction oi)
  case Nil
  show ?case by auto
next
  case (Cons p oi)
  obtain k0 m0 where p: "p = (k0, m0)" by (cases p)
  have d: "distinct (map fst oi)" and nk: "k0 \<notin> fst ` set oi"
    using Cons.prems p by simp_all
  note ih = Cons.IH [OF d]
  show ?case
  proof (cases "k0 = k")
    case True
    have "(k, x) \<notin> set oi" for x
      using nk True by force
    then show ?thesis
      using p True by auto
  next
    case False
    then show ?thesis
      using p ih nk by (auto simp: image_iff)
  qed
qed

lemma key_sum_snoc:
  "key_sum k' (ups @ [(k, v, n)]) = key_sum k' ups + (if k = k' then v * real n else 0)"
  "key_count k' (ups @ [(k, v, n)]) = key_count k' ups + (if k = k' then n else 0)"
  by (simp_all add: key_sum_def key_count_def)

lemma key_sum_absent:
  assumes "k \<notin> set (map fst ups)"
  shows "key_sum k ups = 0" and "key_count k ups = 0"
proof -
  have "filter (\<lambda>(k', v, n). k' = k) ups = []"
    using assms by (auto simp: filter_empty_conv image_iff)
  then show "key_sum k ups = 0" and "key_count k ups = 0"
    by (simp_all add: key_sum_def key_count_def)
qed

lemma meters_of_update:
  assumes "meters_of ups oi"
  shows "meters_of (ups @ [(k, v, n)]) (update_info k v n oi)"
proof -
  have d: "distinct (map fst oi)" and ks: "set (map fst oi) = set (map fst ups)"
    and ms: "\<And>k' m. (k', m) \<in> set oi \<Longrightarrow>
        meter_sum m = key_sum k' ups \<and> meter_count m = key_count k' ups \<and>
        meter_avg m = key_sum k' ups / real (key_count k' ups)"
    using assms by (auto simp: meters_of_def list_all_iff)
  have d': "distinct (map fst (update_info k v n oi))"
    using d by (simp add: update_info_keys)
  have ks': "set (map fst (update_info k v n oi)) = set (map fst (ups @ [(k, v, n)]))"
    using ks by (auto simp: update_info_keys)
  have old: "meter_sum m0 = key_sum k ups \<and> meter_count m0 = key_count k ups"
    if "m0 = (case map_of oi k of None \<Rightarrow> new_meter | Some m \<Rightarrow> m)" for m0
  proof (cases "map_of oi k")
    case None
    then have "k \<notin> set (map fst ups)"
      using ks by (simp add: map_of_eq_None_iff)
    from key_sum_absent [OF this] None that show ?thesis
      by (simp add: new_meter_def)
  next
    case (Some m)
    then have "(k, m) \<in> set oi" by (rule map_of_SomeD)
    from ms [OF this] Some that show ?thesis by simp
  qed
  have ms': "meter_sum m' = key_sum k' (ups @ [(k, v, n)]) \<and>
      meter_count m' = key_count k' (ups @ [(k, v, n)]) \<and>
      meter_avg m' = key_sum k' (ups @ [(k, v, n)]) / real (key_count k' (ups @ [(k, v, n)]))"
    if "(k', m') \<in> set (update_info k v n oi)" for k' m'
  proof (cases "k' = k")
    case True
    with that have "m' = meter_update (case map_of oi k of None \<Rightarrow> new_meter | Some m \<Rightarrow> m) v n"
      by (simp add: update_info_mem [OF d])
    with old True show ?thesis
      by (simp add: meter_update_def key_sum_snoc)
  next
    case False
    with that have "(k', m') \<in> set oi"
      by (simp add: update_info_mem [OF d])
    from ms [OF this] False show ?thesis
      by (simp add: key_sum_snoc)
  qed
  show ?thesis
    unfolding meters_of_def list_all_iff using d' ks' ms' by blast
qed

lemma meters_of_fold:
  assumes "meters_of ups oi"
  shows "meters_of (ups @ new) (fold (\<lambda>(k, v, n) oi. update_info k v n oi) new oi)"
  using assms
proof (induction new arbitrary: ups oi)
  case Nil
  then show ?case by simp
next
  case (Cons u new)
  obtain k v n where u: "u = (k, v, n)" by (cases u)
  have "meters_of (ups @ [(k, v, n)]) (update_info k v n oi)"
    by (rule meters_of_update [OF Cons.prems])
  from Cons.IH [OF this] u show ?case by simp
qed

lemma update_all_fold:
  "update_all d n oi =
     fold (\<lambda>(k, v, n) oi. update_info k v n oi) (map (\<lambda>(k, v). (k, v, n)) d) oi"
  by (simp add: update_all_def fold_map comp_def case_prod_unfold)

lemma meters_of_batch:
  assumes "meters_of (flat_updates cfg pre) oi"
  shows "meters_of (flat_updates cfg (pre @ [b]))
           (update_all (updates cfg b) (batch_size b) oi)"
  using meters_of_fold [OF assms, of "map (\<lambda>(k, v). (k, v, batch_size b)) (updates cfg b)"]
  by (simp add: update_all_fold flat_updates_def)

lemma key_sum_append:
  "key_sum k (ups1 @ ups2) = key_sum k ups1 + key_sum k ups2"
  "key_count k (ups1 @ ups2) = key_count k ups1 + key_count k ups2"
  by (simp_all add: key_sum_def key_count_def)

lemma key_sum_batch:
  "key_sum k (map (\<lambda>(k, v). (k, v, m)) d) =
     sum_list (map (\<lambda>(v, n). v * real n) (map (\<lambda>(k, v). (v, m)) (filter (\<lambda>(k', v). k' = k) d)))"
  "key_count k (map (\<lambda>(k, v). (k, v, m)) d) =
     sum_list (map snd (map (\<lambda>(k, v). (v, m)) (filter (\<lambda>(k', v). k' = k) d)))"
  by (induction d) (auto simp: key_sum_def key_count_def)

lemma key_sum_Nil: "key_sum k [] = 0" "key_count k [] = 0"
  by (simp_all add: key_sum_def key_count_def)

lemma key_sum_values:
  "key_sum k (flat_updates cfg bs) = sum_list (map (\<lambda>(v, n). v * real n) (key_values cfg k bs))"
  "key_count k (flat_updates cfg bs) = sum_list (map snd (key_values cfg k bs))"
  unfolding flat_updates_def key_values_def
  by (induction bs) (simp_all add: key_sum_Nil key_sum_append key_sum_batch)

lemma flat_updates_keys:
  "map fst (flat_updates cfg bs) = concat (map (\<lambda>b. map fst (updates cfg b)) bs)"
  unfolding flat_updates_def
  by (induction bs) (simp_all add: comp_def case_prod_unfold)

lemma key_count_pos:
  assumes "k \<in> set (map fst ups)" and "\<forall>(k', v, n) \<in> set ups. 0 < n"
  shows "0 < key_count k ups"
  using assms
  by (induction ups) (auto simp: key_count_def)

lemma flat_updates_pos:
  assumes "\<forall>b \<in> set bs. 0 < batch_size b"
  shows "\<forall>(k', v, n) \<in> set (flat_updates cfg bs). 0 < n"
  using assms by (auto simp: flat_updates_def)

lemma meters_of_averages:
  assumes "meters_of (flat_updates cfg bs) oi" and "\<forall>b \<in> set bs. 0 < batch_size b"
  shows "averages_of cfg bs (avgs oi)"
proof -
  have d: "distinct (map fst oi)"
    and ks: "set (map fst oi) = set (map fst (flat_updates cfg bs))"
    and ms: "\<And>k m. (k, m) \<in> set oi \<Longrightarrow>
        meter_avg m = key_sum k (flat_updates cfg bs) / real (key_count k (flat_updates cfg bs))"
    using assms(1) by (auto simp: meters_of_def list_all_iff)
  have f: "map fst (avgs oi) = map fst oi"
    by (simp add: avgs_def comp_def case_prod_unfold)
  have "0 < sum_list (map snd (key_values cfg k bs)) \<and>
      a = weighted_average (key_values cfg k bs)" if "(k, a) \<in> set (avgs oi)" for k a
  proof -
    from that obtain m where m: "(k, m) \<in> set oi" and a: "a = meter_avg m"
      by (auto simp: avgs_def)
    from m have "k \<in> set (map fst (flat_updates cfg bs))"
      using ks by force
    from key_count_pos [OF this flat_updates_pos [OF assms(2)]]
    have "0 < sum_list (map snd (key_values cfg k bs))"
      by (simp add: key_sum_values)
    moreover have "a = weighted_average (key_values cfg k bs)"
      using ms [OF m] a by (simp add: weighted_average_def key_sum_values)
    ultimately show ?thesis ..
  qed
  then show ?thesis
    unfolding averages_of_def list_all_iff
    using d ks by (auto simp: f flat_updates_keys)
qed

lemma calls_simps: "calls (Inl x) = snd x" "calls (Inr s) = trace s"
  by (simp_all add: calls_def split: prod.splits)

lemma meters_of_Nil: "meters_of (flat_updates cfg []) []"
  by (simp add: meters_of_def flat_updates_def)

lemma logs_ok_append: "logs_ok cfg io (xs @ ys) \<longleftrightarrow> logs_ok cfg io xs \<and> logs_ok cfg io ys"
  by (simp add: logs_ok_def)

lemma train_step_logs:
  assumes bs: "train_batches (io e) = pre @ b # rest"
    and pos: "\<forall>b \<in> set (train_batches (io e)). 0 < batch_size b"
    and mo: "meters_of (flat_updates cfg pre) (output_info s)"
    and lo: "logs_ok cfg io (trace s)"
  shows "case train_step cfg e (length pre) b s of
           Inl x \<Rightarrow> logs_ok cfg io (snd x)
         | Inr s' \<Rightarrow> meters_of (flat_updates cfg (pre @ [b])) (output_info s') \<and>
                    logs_ok cfg io (trace s')"
proof -
  let ?oi = "update_all (updates cfg b) (batch_size b) (output_info s)"
  let ?log = "if int (length pre) mod print_batch_step cfg = 0
              then [LogIter e (length pre) (avgs ?oi)] else []"
  have m: "meters_of (flat_updates cfg (pre @ [b])) ?oi"
    by (rule meters_of_batch [OF mo])
  have "\<forall>b \<in> set (pre @ [b]). 0 < batch_size b"
    using pos bs by simp
  from meters_of_averages [OF m this]
  have "log_ok cfg io (LogIter e (length pre) (avgs ?oi))"
    using bs by simp
  then have l: "logs_ok cfg io ?log"
    by (simp add: logs_ok_def)
  have l1: "logs_ok cfg io (trace s @ [Forward])"
    using lo by (simp add: logs_ok_def)
  have l2: "logs_ok cfg io (trace s @ [Forward] @ ?log)"
    using lo l by (simp add: logs_ok_def)
  have l3: "logs_ok cfg io
      (trace s @ [Forward] @ ?log @ [Backward, OptimizerStep, ClearGrad, LrStep])"
    using lo l by (simp add: logs_ok_def)
  show ?thesis
    unfolding train_step_eq Let_def using m l1 l2 l3 by simp
qed

lemma train_iters_logs:
  assumes "train_batches (io e) = pre @ rest"
    and "\<forall>b \<in> set (train_batches (io e)). 0 < batch_size b"
    and "meters_of (flat_updates cfg pre) (output_info s)"
    and "logs_ok cfg io (trace s)"
  shows "case train_iters cfg e (length pre) rest s of
           Inl x \<Rightarrow> logs_ok cfg io (snd x)
         | Inr s' \<Rightarrow> meters_of (flat_updates cfg (train_batches (io e))) (output_info s') \<and>
                    logs_ok cfg io (trace s')"
  using assms
proof (induction rest arbitrary: pre s)
  case Nil
  then show ?case by simp
next
  case (Cons b rest)
  note st = train_step_logs [OF Cons.prems]
  show ?case
  proof (cases "train_step cfg e (length pre) b s")
    case (Inl x)
    with st show ?thesis by simp
  next
    case (Inr s')
    with st have m: "meters_of (flat_updates cfg (pre @ [b])) (output_info s')"
      and l: "logs_ok cfg io (trace s')"
      by simp_all
    have "train_batches (io e) = (pre @ [b]) @ rest"
      using Cons.prems(1) by simp
    from Cons.IH [OF this Cons.prems(2) m l] Inr show ?thesis
      by simp
  qed
qed

lemma save_periodic_logs:
  assumes "logs_ok cfg io (trace s)"
  shows "case save_periodic cfg e acc s of
           Inl x \<Rightarrow> logs_ok cfg io (snd x)
         | Inr s' \<Rightarrow> output_info s' = output_info s \<and> logs_ok cfg io (trace s')"
  using assms by (simp add: save_periodic_def emit_def logs_ok_def)

lemma eval_and_save_logs:
  assumes "logs_ok cfg io (trace s)"
  shows "case eval_and_save pd cfg e io1 s of
           Inl x \<Rightarrow> logs_ok cfg io (snd x)
         | Inr s' \<Rightarrow> output_info s' = output_info s \<and> logs_ok cfg io (trace s')"
proof (cases "eval_due cfg e")
  case False
  then show ?thesis
    using save_periodic_logs [OF assms] by (simp add: eval_and_save_def)
next
  case True
  let ?s1 = "emit [EvalCall e] s"
  have s1: "logs_ok cfg io (trace ?s1)"
    using assms by (simp add: emit_def logs_ok_def)
  show ?thesis
  proof (cases "eval pd (print_batch_step cfg) (num_split cfg) (eval_gallery io1) (eval_query io1)")
    case (Inl x)
    then show ?thesis
      using True s1 by (simp add: eval_and_save_def Let_def)
  next
    case (Inr acc)
    let ?s2 = "emit [SaveModel best_model acc e]
        (?s1\<lparr>best_metric := \<lparr>metric = acc, epoch = e\<rparr>\<rparr>)"
    have s2: "logs_ok cfg io (trace ?s2)"
      using assms by (simp add: emit_def logs_ok_def)
    have o: "output_info ?s2 = output_info s" "output_info ?s1 = output_info s"
      by (simp_all add: emit_def)
    show ?thesis
    proof (cases "metric (best_metric ?s1) < acc")
      case better: True
      have "eval_and_save pd cfg e io1 s = save_periodic cfg e acc ?s2"
        using True Inr better by (simp add: eval_and_save_def Let_def)
      with save_periodic_logs [OF s2, of e acc] o(1) show ?thesis
        by (auto split: sum.splits)
    next
      case worse: False
      have "eval_and_save pd cfg e io1 s = save_periodic cfg e acc ?s1"
        using True Inr worse by (simp add: eval_and_save_def Let_def)
      with save_periodic_logs [OF s1, of e acc] o(2) show ?thesis
        by (auto split: sum.splits)
    qed
  qed
qed

lemma train_epoch_logs:
  assumes "output_info s = []" and "logs_ok cfg io (trace s)"
    and pos: "\<forall>b \<in> set (train_batches (io e)). 0 < batch_size b"
  shows "case train_epoch pd cfg e (io e) s of
           Inl x \<Rightarrow> logs_ok cfg io (snd x)
         | Inr s' \<Rightarrow> output_info s' = [] \<and> logs_ok cfg io (trace s')"
proof (cases "eval pd (print_batch_step cfg) (num_split cfg) (eval0_gallery (io e)) (eval0_query (io e))")
  case (Inl x)
  then show ?thesis
    using assms(2) by (simp add: train_epoch_def Let_def emit_def logs_ok_def)
next
  case (Inr r0)
  let ?s1 = "emit [ModelTrain] (emit [EvalCall 0] s)"
  have b: "train_batches (io e) = [] @ train_batches (io e)" by simp
  have m: "meters_of (flat_updates cfg []) (output_info ?s1)"
    using assms(1) by (simp add: emit_def meters_of_Nil)
  have l: "logs_ok cfg io (trace ?s1)"
    using assms(2) by (simp add: emit_def logs_ok_def)
  from train_iters_logs [OF b pos m l]
  have it: "case train_iters cfg e 0 (train_batches (io e)) ?s1 of
      Inl x \<Rightarrow> logs_ok cfg io (snd x)
    | Inr s' \<Rightarrow> meters_of (flat_updates cfg (train_batches (io e))) (output_info s') \<and>
               logs_ok cfg io (trace s')"
    by simp
  show ?thesis
  proof (cases "train_iters cfg e 0 (train_batches (io e)) ?s1")
    case (Inl x)
    with it Inr show ?thesis
      by (simp add: train_epoch_def Let_def)
  next
    case st2: (Inr st2)
    with it have m2: "meters_of (flat_updates cfg (train_batches (io e))) (output_info st2)"
      and l2: "logs_ok cfg io (trace st2)"
      by simp_all
    let ?s3 = "(emit [LogAvg e (avgs (output_info st2))] st2)\<lparr>output_info := []\<rparr>"
    have "log_ok cfg io (LogAvg e (avgs (output_info st2)))"
      using meters_of_averages [OF m2 pos] by simp
    then have "logs_ok cfg io (trace ?s3)"
      using l2 by (simp add: emit_def logs_ok_def)
    from eval_and_save_logs [OF this, of pd e "io e"] Inr st2 show ?thesis
      by (auto simp: train_epoch_def Let_def split: sum.splits)
  qed
qed

text \<open>
  Claim C6. Let every training batch have a positive size. Every log message of a run, during
  an epoch and at its end, shows for each key that the batches of that epoch have reported so
  far the average of the key's values over those batches, each value weighted by the size of
  its batch; the message of iteration \<open>i\<close> counts the batches \<open>0, \<dots>, i\<close> of its epoch.
  \<^verbatim>\<open>output_info\<close> is empty when \<^verbatim>\<open>train\<close> starts and after every epoch, so no value
  of another epoch enters an average.
\<close>

theorem logged_averages:
  assumes "train pd cfg init_model io = Some r"
    and "\<forall>e. \<forall>b \<in> set (train_batches (io e)). 0 < batch_size b"
  shows "(\<forall>ev \<in> set (calls r). log_ok cfg io ev) \<and>
         output_info (init_state cfg init_model) = [] \<and>
         (\<forall>e s s'. train_epoch pd cfg e (io e) s = Inr s' \<longrightarrow> output_info s' = [])"
proof (intro conjI allI impI)
  let ?st0 = "init_state cfg init_model"
  show o0: "output_info ?st0 = []"
    by (cases init_model) (simp_all add: init_state_def emit_def Let_def)
  have l0: "logs_ok cfg io (trace ?st0)"
    by (cases init_model) (simp_all add: init_state_def emit_def Let_def logs_ok_def)
  have r: "r = run_epochs pd cfg io [epoch (best_metric ?st0) + 1..epochs cfg] ?st0"
    using assms(1) by (simp add: train_run_epochs)
  let ?I = "\<lambda>s. output_info s = [] \<and> logs_ok cfg io (trace s)"
  let ?E = "\<lambda>x. logs_ok cfg io (snd x)"
  have "case run_epochs pd cfg io [epoch (best_metric ?st0) + 1..epochs cfg] ?st0 of
      Inl x \<Rightarrow> ?E x | Inr s \<Rightarrow> ?I s"
  proof (rule run_epochs_rule [where I = ?I and E = ?E])
    show "?I ?st0" using o0 l0 by simp
  next
    fix e s s'
    assume "?I s" and "train_epoch pd cfg e (io e) s = Inr s'"
    then show "?I s'"
      using train_epoch_logs [of s cfg io e pd] assms(2) by simp
  next
    fix e s x
    assume "?I s" and "train_epoch pd cfg e (io e) s = Inl x"
    then show "?E x"
      using train_epoch_logs [of s cfg io e pd] assms(2) by simp
  qed
  then have "case r of Inl x \<Rightarrow> ?E x | Inr s \<Rightarrow> ?I s"
    using r by simp
  then have "logs_ok cfg io (calls r)"
    by (cases r) (simp_all add: calls_simps)
  then show "\<forall>ev \<in> set (calls r). log_ok cfg io ev"
    by (simp add: logs_ok_def list_all_iff)
next
  fix e s s'
  assume "train_epoch pd cfg e (io e) s = Inr s'"
  from train_epoch_last_step [OF this] obtain mid u where
    "output_info u = []" "eval_and_save pd cfg e (io e) u = Inr s'"
    by blast
  with eval_and_save_Inr [of pd cfg e "io e" u s'] show "output_info s' = []"
    by simp
qed


section \<open>The theorems at the small run\<close>

lemma ex_eval: "eval exact 1 1 ex_data ex_data = Inr 1"
  by (simp add: ex_data_def eval_def Let_def do_norm_def divide_def exact_norms split_def
      choose_block_def matmul_T_def exact_fields argsort_stable_def first_index_def gather_def
      mean_equal_def)

lemma ex_cfg_fields:
  "epochs ex_cfg = 2" "print_batch_step ex_cfg = 1" "save_interval ex_cfg = 2"
  "eval_during_train ex_cfg = 1" "\<not> checkpoints ex_cfg" "num_split ex_cfg = 1"
  "loss_train ex_cfg" "metric_train ex_cfg"
  by (simp_all add: ex_cfg_def)

lemma ex_step:
  "train_step ex_cfg e 0 ex_batch s =
     Inr (s\<lparr>global_step := Suc (global_step s),
            output_info := update_info ''top1'' 1 2 (update_info ''loss'' 3 2 (output_info s)),
            trace := trace s @
              [Forward,
               LogIter e 0 (avgs (update_info ''top1'' 1 2 (update_info ''loss'' 3 2 (output_info s)))),
               Backward, OptimizerStep, ClearGrad, LrStep]\<rparr>)"
  by (simp add: train_step_eq Let_def ex_cfg_fields ex_batch_def updates_def update_all_def)

lemma ex_avgs:
  "avgs [(''loss'', meter_update new_meter 3 2), (''top1'', meter_update new_meter 1 2)] = ex_vals"
  by (simp add: avgs_def meter_update_def new_meter_def ex_vals_def)

lemma ex_epoch1: "train_epoch exact ex_cfg 1 (ex_io 1) ex_st0 = Inr ex_st1"
  by (simp add: train_epoch_def ex_io_def Let_def ex_cfg_fields ex_eval ex_step emit_def
      ex_st0_def ex_avgs eval_and_save_def eval_due_def save_periodic_def ex_st1_def)

lemma ex_epoch2: "train_epoch exact ex_cfg 2 (ex_io 2) ex_st1 = Inr ex_st2"
  by (simp add: train_epoch_def ex_io_def Let_def ex_cfg_fields ex_eval ex_step emit_def
      ex_st1_def ex_avgs eval_and_save_def eval_due_def save_periodic_def ex_st2_def)

lemma ex_upto: "[1..2::int] = [1, 2]" "[2..2::int] = [2]"
  by (simp_all add: upto_rec1)

lemma ex_run: "run_epochs exact ex_cfg ex_io [1, 2] ex_st0 = Inr ex_st2"
  by (simp add: ex_epoch1 ex_epoch2)

lemma ex_init: "init_state ex_cfg None = ex_st0"
  by (simp add: init_state_def ex_cfg_fields ex_st0_def)

lemma ex_st0_epoch: "epoch (best_metric ex_st0) = 0"
  by (simp add: ex_st0_def)

lemma ex_train: "train exact ex_cfg None ex_io = Some (Inr ex_st2)"
  by (simp add: train_run_epochs ex_init ex_cfg_fields ex_st0_epoch ex_upto ex_epoch1 ex_epoch2)

lemma ex2_cfg_fields:
  "epochs ex2_cfg = 1" "print_batch_step ex2_cfg = 1" "save_interval ex2_cfg = 1"
  "eval_during_train ex2_cfg = 0" "\<not> checkpoints ex2_cfg" "num_split ex2_cfg = 1"
  "loss_train ex2_cfg" "\<not> metric_train ex2_cfg"
  by (simp_all add: ex2_cfg_def)

lemma ex2_epoch: "train_epoch exact ex2_cfg 1 (ex2_io 1) ex_st0 = Inr ex2_st"
  by (simp add: train_epoch_def ex2_io_def Let_def ex2_cfg_fields ex_eval ex2_batches_def
      train_step_eq updates_def update_all_def meter_update_def new_meter_def avgs_def emit_def
      ex_st0_def eval_and_save_def eval_due_def save_periodic_def ex2_st_def)

lemma ex2_init: "init_state ex2_cfg None = ex_st0"
  by (simp add: init_state_def ex2_cfg_fields ex_st0_def)

lemma ex2_train: "train exact ex2_cfg None ex2_io = Some (Inr ex2_st)"
  by (simp add: train_run_epochs ex2_init ex2_cfg_fields ex_st0_epoch upto_rec1 ex2_epoch)


lemma ex_eval_miss: "eval exact 1 1 ex_data [[([1], 8)]] = Inr 0"
  by (simp add: ex_data_def eval_def Let_def do_norm_def divide_def exact_norms split_def
      choose_block_def matmul_T_def exact_fields argsort_stable_def first_index_def gather_def
      mean_equal_def)

lemma ex_due: "eval_due ex_cfg 1" "eval_due ex_cfg 2"
  by (simp_all add: eval_due_def ex_cfg_fields)

lemma ex_eval_io:
  "eval exact (print_batch_step ex_cfg) (num_split ex_cfg) (eval_gallery (ex_io e)) (eval_query (ex_io e)) = Inr 1"
  by (simp add: ex_io_def ex_cfg_fields ex_eval)

lemma ex_eval_io1:
  "eval exact 1 1 (eval_gallery (ex_io e)) (eval_query (ex_io e)) = Inr 1"
  by (simp add: ex_io_def ex_eval)

text \<open>
  Claim C2 at the small run, which has no checkpoint and runs the epochs 1 and 2, and at the
  same configuration with a checkpoint of epoch 1, which runs epoch 2 only.
\<close>

theorem train_resumes_witness:
  "\<not> checkpoints ex_cfg \<and>
   train exact ex_cfg None ex_io =
     Some (run_epochs exact ex_cfg ex_io [1..2] ex_st0) \<and>
   checkpoints ex_cfg_resume \<and>
   train exact ex_cfg_resume (Some ex_info) ex_io =
     Some (run_epochs exact ex_cfg_resume ex_io [2..2] ex_resumed)"
  using train_resumes [where cfg = ex_cfg and init_model = None and pd = exact
      and io = ex_io]
    train_resumes [where cfg = ex_cfg_resume and init_model = "Some ex_info"
      and pd = exact and io = ex_io]
  by (simp add: ex_cfg_def ex_st0_def ex_cfg_resume_def ex_info_def update_best_def
      ex_resumed_def Let_def)

text \<open>
  Claim C3 at the first epoch of the small run: the recall \<open>1\<close> is greater than the stored
  \<open>0\<close>, the checkpoint \<^verbatim>\<open>best_model\<close> is written and \<^verbatim>\<open>best_metric\<close> holds \<open>1\<close> and
  the epoch \<open>1\<close>.
\<close>

theorem best_model_bookkeeping_witness:
  "train_epoch exact ex_cfg 1 (ex_io 1) ex_st0 = Inr ex_st1 \<and>
   run_epochs exact ex_cfg ex_io [1, 2] ex_st0 = Inr ex_st2 \<and>
   metric (best_metric ex_st0) \<le> metric (best_metric ex_st1) \<and>
   (\<exists>new. trace ex_st1 = trace ex_st0 @ new \<and>
      filter is_best_save new = [SaveModel best_model 1 1] \<and>
      best_metric ex_st1 = \<lparr>metric = 1, epoch = 1\<rparr>) \<and>
   metric (best_metric ex_st0) \<le> metric (best_metric ex_st2)"
proof -
  note t = best_model_bookkeeping [where pd = exact and cfg = ex_cfg and e = 1
      and io = "ex_io 1" and st = ex_st0 and st' = ex_st1 and ios = ex_io and es = "[1, 2]"
      and fin = ex_st2]
  have m: "metric (best_metric ex_st0) = 0"
    by (simp add: ex_st0_def)
  have c: "eval_due ex_cfg 1 \<and>
      (\<exists>acc. eval exact (print_batch_step ex_cfg) (num_split ex_cfg) (eval_gallery (ex_io 1))
               (eval_query (ex_io 1)) = Inr acc \<and> metric (best_metric ex_st0) < acc)"
    by (simp add: ex_due ex_eval_io m)
  from t ex_epoch1 ex_run c show ?thesis
    by (simp add: ex_eval_io)
qed

text \<open>
  Claim C4 at the small run, whose \<^verbatim>\<open>save_interval\<close> is 2: the second epoch writes
  \<^verbatim>\<open>ppcls_epoch_2\<close> with the recall \<open>1\<close>, the first epoch writes no such checkpoint.
\<close>

theorem periodic_checkpoint_witness:
  "train_epoch exact ex_cfg 2 (ex_io 2) ex_st1 = Inr ex_st2 \<and>
   (\<exists>new. trace ex_st2 = trace ex_st1 @ new \<and>
      filter is_periodic_save new = [SaveModel (ppcls_epoch 2) 1 2]) \<and>
   train_epoch exact ex_cfg 1 (ex_io 1) ex_st0 = Inr ex_st1 \<and>
   (\<exists>new. trace ex_st1 = trace ex_st0 @ new \<and> filter is_periodic_save new = [])"
  using periodic_checkpoint [OF ex_epoch2] periodic_checkpoint [OF ex_epoch1]
  by (auto simp: ex_epoch1 ex_epoch2 ex_cfg_fields ex_due ex_eval_io1)

text \<open>
  Claim C5 at the run of two batches: its one epoch has two training batches and makes the
  forward pass and the update twice, and \<^verbatim>\<open>global_step\<close> is 2.
\<close>

theorem one_update_per_batch_witness:
  "train exact ex2_cfg None ex2_io = Some (Inr ex2_st) \<and>
   length (train_batches (ex2_io 1)) = 2 \<and>
   global_step ex2_st = 2 \<and>
   batch_calls (trace ex2_st) =
     [Forward, Backward, OptimizerStep, ClearGrad, LrStep,
      Forward, Backward, OptimizerStep, ClearGrad, LrStep] \<and>
   train_epoch exact ex2_cfg 1 (ex2_io 1) ex_st0 = Inr ex2_st \<and>
   (\<exists>new. trace ex2_st = trace ex_st0 @ new \<and>
      batch_calls new = concat (replicate 2 batch_pattern))"
proof -
  note t = one_update_per_batch [OF ex2_train]
  have l: "length (train_batches (ex2_io 1)) = 2"
    by (simp add: ex2_io_def ex2_batches_def)
  have u: "[epoch (best_metric (init_state ex2_cfg None)) + 1..epochs ex2_cfg] = [1]"
    by (simp add: ex2_init ex_st0_epoch ex2_cfg_fields upto_rec1)
  from t have g: "global_step ex2_st = 2"
    by (simp add: u l)
  from t have "batch_calls (trace ex2_st) = concat (replicate (global_step ex2_st) batch_pattern)"
    by simp
  then have c: "batch_calls (trace ex2_st) =
     [Forward, Backward, OptimizerStep, ClearGrad, LrStep,
      Forward, Backward, OptimizerStep, ClearGrad, LrStep]"
    unfolding g by (simp add: batch_pattern_def numeral_2_eq_2)
  from t ex2_epoch have "\<exists>new. trace ex2_st = trace ex_st0 @ new \<and>
      batch_calls new = concat (replicate (length (train_batches (ex2_io 1))) batch_pattern)"
    by blast
  then have e: "\<exists>new. trace ex2_st = trace ex_st0 @ new \<and>
      batch_calls new = concat (replicate 2 batch_pattern)"
    unfolding l .
  from ex2_train l g c ex2_epoch e show ?thesis
    by blast
qed

text \<open>
  Claim C6 at the run of two batches, of the sizes 1 and 3 and the losses 1 and 5: the message
  of the second iteration and the message of the end of the epoch show 4, the average weighted
  by the batch sizes.
\<close>

theorem logged_averages_witness:
  "train exact ex2_cfg None ex2_io = Some (Inr ex2_st) \<and>
   (\<forall>e. list_all (\<lambda>b. 0 < batch_size b) (train_batches (ex2_io e))) \<and>
   list_all (log_ok ex2_cfg ex2_io) (trace ex2_st) \<and>
   LogIter 1 1 [(''loss'', 4)] \<in> set (trace ex2_st) \<and>
   LogAvg 1 [(''loss'', 4)] \<in> set (trace ex2_st) \<and>
   averages_of ex2_cfg (train_batches (ex2_io 1)) [(''loss'', 4)] \<and>
   weighted_average (key_values ex2_cfg ''loss'' (train_batches (ex2_io 1))) = 4"
proof -
  have p: "\<forall>e. \<forall>b \<in> set (train_batches (ex2_io e)). 0 < batch_size b"
    by (simp add: ex2_io_def ex2_batches_def)
  from logged_averages [OF ex2_train p]
  have lo: "\<forall>ev \<in> set (trace ex2_st). log_ok ex2_cfg ex2_io ev"
    by (simp add: calls_simps)
  have m1: "LogIter 1 1 [(''loss'', 4)] \<in> set (trace ex2_st)"
    and m2: "LogAvg 1 [(''loss'', 4)] \<in> set (trace ex2_st)"
    by (simp_all add: ex2_st_def)
  from lo m2 have "log_ok ex2_cfg ex2_io (LogAvg 1 [(''loss'', 4)])"
    by blast
  then have a: "averages_of ex2_cfg (train_batches (ex2_io 1)) [(''loss'', 4)]"
    by simp
  then have w: "weighted_average (key_values ex2_cfg ''loss'' (train_batches (ex2_io 1))) = 4"
    by (simp add: averages_of_def)
  from ex2_train p lo m1 m2 a w show ?thesis
    by (simp add: list_all_iff)
qed

text \<open>
  Claim C8 at the second epoch of the small run: the checkpoint \<^verbatim>\<open>ppcls_epoch_2\<close> holds
  the recall \<open>1\<close> of the evaluation after the batches, and the epoch is the same when the
  evaluation at its start returns \<open>0\<close> instead of \<open>1\<close>.
\<close>

theorem start_eval_discarded_witness:
  "train_epoch exact ex_cfg 2 (ex_io 2) ex_st1 = Inr ex_st2 \<and>
   eval exact (print_batch_step ex_cfg) (num_split ex_cfg) ex_data [[([1], 8)]] = Inr 0 \<and>
   train_epoch exact ex_cfg 2
     ((ex_io 2)\<lparr>eval0_gallery := ex_data, eval0_query := [[([1], 8)]]\<rparr>) ex_st1 = Inr ex_st2 \<and>
   (\<exists>new. trace ex_st2 = trace ex_st1 @ new \<and>
      (\<forall>k m j. SaveModel (ppcls_epoch k) m j \<in> set new \<longrightarrow> m = 1))"
proof -
  have e0: "eval exact (print_batch_step ex_cfg) (num_split ex_cfg) ex_data [[([1], 8)]] = Inr 0"
    by (simp add: ex_cfg_fields ex_eval_miss)
  from start_eval_discarded [OF ex_epoch2] e0 ex_epoch2 show ?thesis
    by (simp add: ex_due ex_eval_io)
qed


end
